theory Spec2Isabelle
  imports Complex_Main "HOL-Library.Word" "HOL-Library.Multiset" "HOL-Library.Signed_Division"
    "HOL-Library.Log_Nat"
begin

unbundle bit_operations_syntax

chapter \<open>The model\<close>

section \<open>Voxel types (core/voxel\_types.h)\<close>

text \<open>
  \<open>VoxelTypeID\<close> is \<open>uint8_t\<close>. The enum \<open>BlockType\<close> names the first sixteen
  identifiers; only the ones the modelled code mentions are given names here.
\<close>

type_synonym VoxelTypeID = "8 word"

definition AIR :: VoxelTypeID where "AIR = 0"
definition STONE :: VoxelTypeID where "STONE = 1"
definition DIRT :: VoxelTypeID where "DIRT = 2"
definition GRASS :: VoxelTypeID where "GRASS = 3"
definition SAND :: VoxelTypeID where "SAND = 4"
definition WATER :: VoxelTypeID where "WATER = 5"
definition GRAVEL :: VoxelTypeID where "GRAVEL = 6"

definition MAX_BLOCK_TYPES :: int where "MAX_BLOCK_TYPES = 256"

section \<open>Single-precision arithmetic\<close>

text \<open>
  The source computes heights, thresholds and positions in \<open>float\<close> (\<open>real_t\<close> in
  \<open>Vector3\<close>), the IEEE 754 binary32 format. A float is modelled as the real number it
  denotes, and every operation of the source that produces a float (an arithmetic operation
  on floats, the conversion of an \<open>int32_t\<close>, a literal such as \<open>0.6f\<close>) is the exact
  result passed through \<open>round_f32\<close>: rounding to the nearest number with a 24-bit
  significand, ties to the even significand, with the fixed spacing \<open>2^-149\<close> of the
  denormal range below \<open>2^-126\<close>. With \<open>s = x * 2^149\<close> the significand has the bits
  of \<open>s\<close> above bit \<open>k\<close>, where \<open>k\<close> is the bit length of \<open>s\<close> minus 24, or 0 for a
  denormal. Each operation rounds once (no fused multiply-add). Infinities and NaN are not
  represented; no operation of the modelled code produces them while the noise values stay
  in \<open>[-1, 1]\<close>.
\<close>

definition round_even :: "real \<Rightarrow> int" where
  "round_even r =
     (let f = \<lfloor>r\<rfloor>; d = r - of_int f
      in if d < 1 / 2 then f else if 1 / 2 < d then f + 1 else if even f then f else f + 1)"

definition round_f32 :: "real \<Rightarrow> real" where
  "round_f32 x =
     (let s = x * 2 ^ 149;
          k = nat (bitlen \<lfloor>\<bar>s\<bar>\<rfloor> - 24)
      in of_int (round_even (s / 2 ^ k)) * 2 ^ k / 2 ^ 149)"

section \<open>Chunk storage (core/voxel\_data.h, core/voxel\_data.cpp)\<close>

text \<open>
  The \<open>int32_t\<close> coordinates and sizes are modelled as \<open>int\<close>. The buffer behind
  \<open>std::unique_ptr<VoxelTypeID[]>\<close> is a list; \<open>None\<close> is the null pointer. An
  access \<open>data[idx]\<close> that falls outside the buffer (or goes through the null pointer) is
  undefined behaviour in the source; every operation that performs such an access returns
  \<open>None\<close> in the model, so that it is a visible branch.
\<close>

definition CHUNK_SIZE_XZ :: int where "CHUNK_SIZE_XZ = 16"
definition DEEP_VOID_CHUNK_HEIGHT :: int where "DEEP_VOID_CHUNK_HEIGHT = 32"
definition DENSE_TERRAIN_CHUNK_HEIGHT :: int where "DENSE_TERRAIN_CHUNK_HEIGHT = 16"
definition SKY_CHUNK_HEIGHT :: int where "SKY_CHUNK_HEIGHT = 64"
definition DEEP_VOID_MAX_Y :: int where "DEEP_VOID_MAX_Y = - 64"
definition DENSE_TERRAIN_MAX_Y :: int where "DENSE_TERRAIN_MAX_Y = 180"

record VoxelData =
  chunk_size_y :: int
  total_voxels :: int
  is_uniform :: bool
  uniform_value :: VoxelTypeID
  data :: "VoxelTypeID list option"

text \<open>The constructor \<open>VoxelData(int32_t chunk_y)\<close>.\<close>

definition VoxelData_new :: "int \<Rightarrow> VoxelData" where
  "VoxelData_new chunk_y =
     \<lparr> chunk_size_y = chunk_y,
       total_voxels = CHUNK_SIZE_XZ * CHUNK_SIZE_XZ * chunk_y,
       is_uniform = True,
       uniform_value = AIR,
       data = None \<rparr>"

definition initialize_data :: "VoxelData \<Rightarrow> int \<Rightarrow> VoxelData" where
  "initialize_data s chunk_y =
     s\<lparr> chunk_size_y := chunk_y,
        total_voxels := CHUNK_SIZE_XZ * CHUNK_SIZE_XZ * chunk_y,
        is_uniform := True,
        uniform_value := AIR,
        data := None \<rparr>"

definition clear_data :: "VoxelData \<Rightarrow> VoxelData" where
  "clear_data s = s\<lparr> is_uniform := True, uniform_value := AIR, data := None \<rparr>"

definition get_index :: "VoxelData \<Rightarrow> int \<Rightarrow> int \<Rightarrow> int \<Rightarrow> int" where
  "get_index s x y z = x + y * CHUNK_SIZE_XZ + z * CHUNK_SIZE_XZ * chunk_size_y s"

text \<open>A read \<open>data[idx]\<close>: defined only inside the buffer.\<close>

definition read_cell :: "VoxelTypeID list option \<Rightarrow> int \<Rightarrow> VoxelTypeID option" where
  "read_cell d idx =
     (case d of
        None \<Rightarrow> None
      | Some buf \<Rightarrow> if 0 \<le> idx \<and> idx < int (length buf) then Some (buf ! nat idx) else None)"

text \<open>The inline accessor \<open>get_voxel\<close> (``fast voxel access''): no bounds check.\<close>

definition get_voxel :: "VoxelData \<Rightarrow> int \<Rightarrow> int \<Rightarrow> int \<Rightarrow> VoxelTypeID option" where
  "get_voxel s x y z =
     (if is_uniform s then Some (uniform_value s)
      else read_cell (data s) (get_index s x y z))"

text \<open>The bounds check that \<open>set_voxel\<close> and \<open>_get_voxel\<close> share, negated.\<close>

definition in_bounds :: "VoxelData \<Rightarrow> int \<Rightarrow> int \<Rightarrow> int \<Rightarrow> bool" where
  "in_bounds s x y z \<longleftrightarrow>
     \<not> (x < 0 \<or> x \<ge> CHUNK_SIZE_XZ \<or> y < 0 \<or> y \<ge> chunk_size_y s \<or> z < 0 \<or> z \<ge> CHUNK_SIZE_XZ)"

definition set_voxel :: "VoxelData \<Rightarrow> int \<Rightarrow> int \<Rightarrow> int \<Rightarrow> VoxelTypeID \<Rightarrow> VoxelData option" where
  "set_voxel s x y z type =
     (if x < 0 \<or> x \<ge> CHUNK_SIZE_XZ \<or> y < 0 \<or> y \<ge> chunk_size_y s \<or> z < 0 \<or> z \<ge> CHUNK_SIZE_XZ
      then Some s
      else if is_uniform s \<and> type = uniform_value s then Some s
      else
        let s1 = (if is_uniform s
                  then s\<lparr> data := Some (replicate (nat (total_voxels s)) (uniform_value s)),
                          is_uniform := False \<rparr>
                  else s);
            idx = get_index s1 x y z
        in (case data s1 of
              None \<Rightarrow> None
            | Some buf \<Rightarrow>
                if 0 \<le> idx \<and> idx < int (length buf)
                then Some (s1\<lparr> data := Some (buf[nat idx := type]) \<rparr>)
                else None))"

definition fill :: "VoxelData \<Rightarrow> VoxelTypeID \<Rightarrow> VoxelData" where
  "fill s type = s\<lparr> is_uniform := True, uniform_value := type, data := None \<rparr>"

text \<open>
  The scan of \<open>check_and_optimize_uniform\<close>:
  \<open>for (i = 1; i < total_voxels; i++) if (data[i] != first_value) return false;\<close>
  \<open>Some False\<close> is the early return, \<open>Some True\<close> the loop running to its end.
\<close>

function scan_uniform :: "VoxelTypeID list \<Rightarrow> VoxelTypeID \<Rightarrow> int \<Rightarrow> int \<Rightarrow> bool option" where
  "scan_uniform buf first_value i n =
     (if i < n
      then (if 0 \<le> i \<and> i < int (length buf)
            then (if buf ! nat i \<noteq> first_value then Some False
                  else scan_uniform buf first_value (i + 1) n)
            else None)
      else Some True)"
  by pat_completeness auto
termination
  by (relation "measure (\<lambda>(buf, first_value, i, n). nat (n - i))") auto

declare scan_uniform.simps [simp del]

definition check_and_optimize_uniform :: "VoxelData \<Rightarrow> (bool \<times> VoxelData) option" where
  "check_and_optimize_uniform s =
     (if is_uniform s then Some (True, s)
      else case data s of
        None \<Rightarrow> Some (True, s\<lparr> is_uniform := True, uniform_value := AIR \<rparr>)
      | Some buf \<Rightarrow>
          (case read_cell (Some buf) 0 of
             None \<Rightarrow> None
           | Some first_value \<Rightarrow>
               (case scan_uniform buf first_value 1 (total_voxels s) of
                  None \<Rightarrow> None
                | Some False \<Rightarrow> Some (False, s)
                | Some True \<Rightarrow>
                    Some (True, s\<lparr> uniform_value := first_value, is_uniform := True,
                                    data := None \<rparr>))))"

text \<open>
  The methods bound to the script interface (\<open>_get_voxel\<close>, \<open>_set_voxel\<close>, \<open>_fill\<close> in
  the source; an Isabelle name cannot start with an underscore).
\<close>

definition godot_get_voxel :: "VoxelData \<Rightarrow> int \<Rightarrow> int \<Rightarrow> int \<Rightarrow> int option" where
  "godot_get_voxel s x y z =
     (if x < 0 \<or> x \<ge> CHUNK_SIZE_XZ \<or> y < 0 \<or> y \<ge> chunk_size_y s \<or> z < 0 \<or> z \<ge> CHUNK_SIZE_XZ
      then Some (uint AIR)
      else map_option uint (get_voxel s x y z))"

definition godot_set_voxel :: "VoxelData \<Rightarrow> int \<Rightarrow> int \<Rightarrow> int \<Rightarrow> int \<Rightarrow> VoxelData option" where
  "godot_set_voxel s x y z type =
     (if type \<ge> 0 \<and> type < MAX_BLOCK_TYPES then set_voxel s x y z (word_of_int type)
      else Some s)"

definition godot_fill :: "VoxelData \<Rightarrow> int \<Rightarrow> VoxelData" where
  "godot_fill s type =
     (if type \<ge> 0 \<and> type < MAX_BLOCK_TYPES then fill s (word_of_int type) else s)"

text \<open>
  The representation invariant of the class: \<open>total_voxels\<close> is the product computed by the
  constructor (and fits \<open>int32_t\<close>), a uniform storage has no buffer, and a dense storage
  has a buffer of exactly \<open>total_voxels\<close> cells, which is not empty. The constructor
  establishes it and every operation keeps it (lemmas below).
\<close>

definition storage_inv :: "VoxelData \<Rightarrow> bool" where
  "storage_inv s \<longleftrightarrow>
     total_voxels s = CHUNK_SIZE_XZ * CHUNK_SIZE_XZ * chunk_size_y s \<and>
     - (2 ^ 31) \<le> total_voxels s \<and> total_voxels s < 2 ^ 31 \<and>
     (case data s of
        None \<Rightarrow> is_uniform s
      | Some buf \<Rightarrow> \<not> is_uniform s \<and> 0 < chunk_size_y s \<and> int (length buf) = total_voxels s)"

text \<open>A sequence of \<open>set_voxel\<close> calls, as a caller issues them one after the other.\<close>

fun set_voxels :: "VoxelData \<Rightarrow> (int \<times> int \<times> int \<times> VoxelTypeID) list \<Rightarrow> VoxelData option" where
  "set_voxels s [] = Some s"
| "set_voxels s ((x, y, z, t) # ws) =
     (case set_voxel s x y z t of None \<Rightarrow> None | Some s' \<Rightarrow> set_voxels s' ws)"

section \<open>Job scheduler (util/thread\_pool.h, util/thread\_pool.cpp)\<close>

text \<open>
  The pool as one thread sees it between two of its own steps: the atomics are plain fields,
  the \<open>int32_t\<close> counters are 32-bit words compared as signed numbers, the
  \<open>std::priority_queue\<close> is the multiset of the jobs it holds, the semaphore is its
  count, and \<open>queue_mutex\<close> is the number of times it has been locked (every \<open>lock()\<close>
  of the modelled code is followed by its \<open>unlock()\<close>): a call that leaves the number
  unchanged has not waited for the mutex. The task closure is a value of an arbitrary type.
\<close>

datatype JobType = GENERATE_TERRAIN | BUILD_MESH | BUILD_REGION_MESH

record 'task Job =
  job_type :: JobType
  task :: 'task
  priority :: "32 word"

record 'task ThreadPool =
  num_threads :: "32 word"
  job_queue :: "'task Job multiset"
  queue_mutex :: nat
  queue_semaphore :: nat
  should_stop :: bool
  active_jobs :: "32 word"
  pending_jobs :: "32 word"
  max_pending_jobs :: "32 word"

text \<open>The default constructor \<open>ThreadPool()\<close>.\<close>

definition ThreadPool_new :: "'task ThreadPool" where
  "ThreadPool_new =
     \<lparr> num_threads = 0, job_queue = {#}, queue_mutex = 0, queue_semaphore = 0,
       should_stop = False,
       active_jobs = 0, pending_jobs = 0, max_pending_jobs = 1000 \<rparr>"

definition set_max_pending_jobs :: "'task ThreadPool \<Rightarrow> 32 word \<Rightarrow> 'task ThreadPool" where
  "set_max_pending_jobs p m = p\<lparr> max_pending_jobs := m \<rparr>"

definition submit_job ::
  "'task ThreadPool \<Rightarrow> JobType \<Rightarrow> 'task \<Rightarrow> 32 word \<Rightarrow> bool \<times> 'task ThreadPool" where
  "submit_job p type fn prio =
     (if should_stop p then (False, p)
      else if max_pending_jobs p \<le>s pending_jobs p then (False, p)
      else (True,
            p\<lparr> queue_mutex := queue_mutex p + 1,
               job_queue := add_mset \<lparr> job_type = type, task = fn, priority = prio \<rparr> (job_queue p),
               pending_jobs := pending_jobs p + 1,
               queue_semaphore := queue_semaphore p + 1 \<rparr>))"

section \<open>Chunks (core/chunk.h, core/chunk.cpp)\<close>

text \<open>
  \<open>Vector3i\<close> is a triple of integers, \<open>Vector3\<close> a triple of floats; an integer stored
  in a \<open>Vector3\<close> is converted with \<open>round_f32\<close>. The mesh is an opaque value; a null
  \<open>Ref<ArrayMesh>\<close> is \<open>None\<close>, as is a null \<open>unique_ptr<VoxelData>\<close>. The cached mesh
  arrays, the neighbour pointers and the memory estimate of the class play no part in the
  modelled operations and are left out.
\<close>

datatype ChunkState = INACTIVE | GENERATING | MESHING | ACTIVE | UNLOADING

type_synonym Vector3i = "int \<times> int \<times> int"
type_synonym Vector3 = "real \<times> real \<times> real"

record 'mesh Chunk =
  position :: Vector3i
  world_position :: Vector3
  voxel_data :: "VoxelData option"
  state :: ChunkState
  mesh :: "'mesh option"
  mesh_dirty :: bool

definition Chunk_new :: "'mesh Chunk" where
  "Chunk_new =
     \<lparr> position = (0, 0, 0), world_position = (0, 0, 0), voxel_data = None,
       state = INACTIVE, mesh = None, mesh_dirty = True \<rparr>"

definition initialize_chunk :: "'mesh Chunk \<Rightarrow> Vector3i \<Rightarrow> int \<Rightarrow> 'mesh Chunk" where
  "initialize_chunk c pos chunk_height =
     (case pos of (px, py, pz) \<Rightarrow>
        c\<lparr> position := pos,
           world_position := (round_f32 (of_int (px * CHUNK_SIZE_XZ)),
                              round_f32 (of_int (py * chunk_height)),
                              round_f32 (of_int (pz * CHUNK_SIZE_XZ))),
           voxel_data := Some (VoxelData_new chunk_height),
           state := INACTIVE,
           mesh_dirty := True \<rparr>)"

definition set_state :: "'mesh Chunk \<Rightarrow> ChunkState \<Rightarrow> 'mesh Chunk" where
  "set_state c new_state = c\<lparr> state := new_state \<rparr>"

definition set_mesh :: "'mesh Chunk \<Rightarrow> 'mesh option \<Rightarrow> 'mesh Chunk" where
  "set_mesh c new_mesh = c\<lparr> mesh := new_mesh, mesh_dirty := False \<rparr>"

text \<open>\<open>Chunk::get_voxel\<close> and \<open>Chunk::set_voxel\<close>.\<close>

definition chunk_get_voxel :: "'mesh Chunk \<Rightarrow> int \<Rightarrow> int \<Rightarrow> int \<Rightarrow> VoxelTypeID option" where
  "chunk_get_voxel c x y z =
     (case voxel_data c of None \<Rightarrow> Some AIR | Some vd \<Rightarrow> get_voxel vd x y z)"

definition chunk_set_voxel ::
  "'mesh Chunk \<Rightarrow> int \<Rightarrow> int \<Rightarrow> int \<Rightarrow> VoxelTypeID \<Rightarrow> 'mesh Chunk option" where
  "chunk_set_voxel c x y z type =
     (case voxel_data c of
        None \<Rightarrow> Some c
      | Some vd \<Rightarrow>
          (case set_voxel vd x y z type of
             None \<Rightarrow> None
           | Some vd' \<Rightarrow> Some (c\<lparr> voxel_data := Some vd', mesh_dirty := True \<rparr>)))"

section \<open>World streamer (voxel\_world.h, voxel\_world.cpp, core/voxel\_data.h)\<close>

text \<open>
  The two tables of \<open>VoxelWorld\<close> are maps. A \<open>MeshInstance3D*\<close> is the number of a node;
  \<open>nodes\<close> holds the nodes created with \<open>memnew\<close> and added as children, \<open>next_node\<close> is
  the next fresh number, and \<open>freed\<close> lists the nodes passed to \<open>queue_free\<close>.
\<close>

record 'mesh MeshInstance3D =
  inst_mesh :: 'mesh
  inst_position :: Vector3

record 'mesh VoxelWorld =
  chunks :: "Vector3i \<rightharpoonup> 'mesh Chunk"
  chunk_mesh_instances :: "Vector3i \<rightharpoonup> nat"
  nodes :: "nat \<rightharpoonup> 'mesh MeshInstance3D"
  next_node :: nat
  freed :: "nat list"

definition VoxelWorld_new :: "'mesh VoxelWorld" where
  "VoxelWorld_new =
     \<lparr> chunks = Map.empty, chunk_mesh_instances = Map.empty, nodes = Map.empty,
       next_node = 0, freed = [] \<rparr>"

definition get_chunk_height_for_y :: "int \<Rightarrow> int" where
  "get_chunk_height_for_y world_y =
     (if world_y < DEEP_VOID_MAX_Y then DEEP_VOID_CHUNK_HEIGHT
      else if world_y < DENSE_TERRAIN_MAX_Y then DENSE_TERRAIN_CHUNK_HEIGHT
      else SKY_CHUNK_HEIGHT)"

text \<open>C++ integer division and remainder truncate towards zero: \<open>sdiv\<close> and \<open>smod\<close>.\<close>

definition world_y_to_chunk_y :: "int \<Rightarrow> int" where
  "world_y_to_chunk_y world_y = world_y sdiv get_chunk_height_for_y world_y"

text \<open>\<open>static_cast<int32_t>\<close> of a float: truncation towards zero.\<close>

definition float_to_int :: "real \<Rightarrow> int" where
  "float_to_int r = (if 0 \<le> r then \<lfloor>r\<rfloor> else \<lceil>r\<rceil>)"

text \<open>
  \<open>world_to_chunk_pos\<close>: the horizontal coordinates are divided in floats and rounded down
  with \<open>floor\<close>; the vertical one is cast to \<open>int32_t\<close> and divided as an integer.
\<close>

definition world_to_chunk_pos :: "Vector3 \<Rightarrow> Vector3i" where
  "world_to_chunk_pos world_pos =
     (case world_pos of (wx, wy, wz) \<Rightarrow>
        (\<lfloor>round_f32 (wx / round_f32 (of_int CHUNK_SIZE_XZ))\<rfloor>,
         world_y_to_chunk_y (float_to_int wy),
         \<lfloor>round_f32 (wz / round_f32 (of_int CHUNK_SIZE_XZ))\<rfloor>))"

definition remove_chunk_mesh_instance :: "'mesh VoxelWorld \<Rightarrow> Vector3i \<Rightarrow> 'mesh VoxelWorld" where
  "remove_chunk_mesh_instance w pos =
     (case chunk_mesh_instances w pos of
        None \<Rightarrow> w
      | Some n \<Rightarrow>
          w\<lparr> freed := freed w @ [n],
             chunk_mesh_instances := (chunk_mesh_instances w)(pos := None) \<rparr>)"

text \<open>
  The body of the second loop of \<open>unload_distant_chunks\<close>: the render handle is
  removed and the coordinate is erased from the chunk table.
\<close>

definition unload_chunk :: "'mesh VoxelWorld \<Rightarrow> Vector3i \<Rightarrow> 'mesh VoxelWorld" where
  "unload_chunk w pos =
     (let w1 = remove_chunk_mesh_instance w pos
      in w1\<lparr> chunks := (chunks w1)(pos := None) \<rparr>)"

text \<open>
  Mesh installation. \<open>None\<close> as the result is the dereference of a null \<open>voxel_data\<close> in
  \<open>it->second->get_voxel_data()->get_chunk_size_y()\<close>.
\<close>

definition create_chunk_mesh_instance ::
  "'mesh VoxelWorld \<Rightarrow> Vector3i \<Rightarrow> 'mesh option \<Rightarrow> 'mesh VoxelWorld option" where
  "create_chunk_mesh_instance w pos new_mesh =
     (case new_mesh of
        None \<Rightarrow> Some w
      | Some m \<Rightarrow>
          (case chunks w pos of
             None \<Rightarrow> Some w
           | Some c \<Rightarrow>
               let w1 = remove_chunk_mesh_instance w pos
               in (case voxel_data c of
                     None \<Rightarrow> None
                   | Some vd \<Rightarrow>
                       (case pos of (px, py, pz) \<Rightarrow>
                          let inst = \<lparr> inst_mesh = m,
                                       inst_position =
                                         (round_f32 (of_int (px * CHUNK_SIZE_XZ)),
                                          round_f32 (of_int (py * chunk_size_y vd)),
                                          round_f32 (of_int (pz * CHUNK_SIZE_XZ))) \<rparr>;
                              n = next_node w1
                          in Some (w1\<lparr> nodes := (nodes w1)(n \<mapsto> inst),
                                       next_node := n + 1,
                                       chunk_mesh_instances := (chunk_mesh_instances w1)(pos \<mapsto> n),
                                       chunks := (chunks w1)(pos \<mapsto>
                                          set_state (set_mesh c (Some m)) ACTIVE) \<rparr>)))))"

text \<open>
  The first half of \<open>generate_chunk_async\<close>: the chunk is allocated, marked Generating and
  put in the table before any work is dispatched.
\<close>

definition insert_generating_chunk :: "'mesh VoxelWorld \<Rightarrow> Vector3i \<Rightarrow> 'mesh VoxelWorld" where
  "insert_generating_chunk w pos =
     (case pos of (px, py, pz) \<Rightarrow>
        w\<lparr> chunks := (chunks w)(pos \<mapsto>
              set_state (initialize_chunk Chunk_new pos (get_chunk_height_for_y py)) GENERATING) \<rparr>)"

definition get_chunk_at :: "'mesh VoxelWorld \<Rightarrow> Vector3i \<Rightarrow> 'mesh Chunk option" where
  "get_chunk_at w pos = (case chunks w pos of Some c \<Rightarrow> Some c | None \<Rightarrow> None)"

text \<open>
  \<open>get_voxel_at\<close> is a \<open>const\<close> method: a function of the world that returns the voxel
  and no new world. \<open>None\<close> as the result is undefined behaviour: a null \<open>voxel_data\<close>,
  a remainder by zero, or a read outside the buffer.
\<close>

definition get_voxel_at :: "'mesh VoxelWorld \<Rightarrow> Vector3 \<Rightarrow> VoxelTypeID option" where
  "get_voxel_at w world_pos =
     (case get_chunk_at w (world_to_chunk_pos world_pos) of
        None \<Rightarrow> Some AIR
      | Some c \<Rightarrow>
          (case world_pos of (wx, wy, wz) \<Rightarrow>
             (case voxel_data c of
                None \<Rightarrow> None
              | Some vd \<Rightarrow>
                  if chunk_size_y vd = 0 then None
                  else
                    let local_x = float_to_int wx smod CHUNK_SIZE_XZ;
                        local_y = float_to_int wy smod chunk_size_y vd;
                        local_z = float_to_int wz smod CHUNK_SIZE_XZ
                    in chunk_get_voxel c local_x local_y local_z)))"

text \<open>
  The part of world space that the chunk at table coordinate \<open>pos\<close> occupies when its height
  is \<open>chunk_size\<close>: \<open>TerrainGenerator::generate_chunk\<close> fills its cell \<open>(x, y, z)\<close> for the
  world coordinates \<open>(px * 16 + x, py * chunk_size + y, pz * 16 + z)\<close>, and
  \<open>create_chunk_mesh_instance\<close> places its mesh at
  \<open>(px * 16, py * chunk_size, pz * 16)\<close>. A chunk that \<open>generate_chunk_async\<close> creates at
  \<open>pos\<close> has the height \<open>get_chunk_height_for_y py\<close>.
\<close>

definition chunk_contains :: "Vector3i \<Rightarrow> int \<Rightarrow> Vector3 \<Rightarrow> bool" where
  "chunk_contains pos chunk_size world_pos \<longleftrightarrow>
     (case pos of (px, py, pz) \<Rightarrow>
      case world_pos of (wx, wy, wz) \<Rightarrow>
        of_int (px * CHUNK_SIZE_XZ) \<le> wx \<and> wx < of_int (px * CHUNK_SIZE_XZ + CHUNK_SIZE_XZ) \<and>
        of_int (py * chunk_size) \<le> wy \<and> wy < of_int (py * chunk_size + chunk_size) \<and>
        of_int (pz * CHUNK_SIZE_XZ) \<le> wz \<and> wz < of_int (pz * CHUNK_SIZE_XZ + CHUNK_SIZE_XZ))"

section \<open>Terrain generator (systems/terrain\_generator.h, systems/terrain\_generator.cpp)\<close>

text \<open>
  Heights, noise values and thresholds are floats. The noise primitive
  \<open>noise->get_noise_2d\<close>, configured by seed and frequency, is a parameter \<open>noise\<close> of every
  function that samples it; it returns a float in \<open>[-1, 1]\<close>. The height cache
  \<open>std::unordered_map<uint64_t, float>\<close> is a map from 64-bit words. The float literals
  \<open>0.01f\<close>, \<open>0.6f\<close> and \<open>-0.3f\<close> of \<open>TerrainParams\<close> are the decimal values rounded.
\<close>

record TerrainParams =
  base_height :: int
  max_height_variation :: int
  noise_frequency :: real
  seed :: int
  mountain_threshold :: real
  beach_threshold :: real
  water_level :: real

definition default_TerrainParams :: TerrainParams where
  "default_TerrainParams =
     \<lparr> base_height = 64, max_height_variation = 24, noise_frequency = round_f32 (1 / 100),
       seed = 12345, mountain_threshold = round_f32 (6 / 10),
       beach_threshold = round_f32 (- (3 / 10)), water_level = round_f32 (of_int 64) \<rparr>"

record TerrainGenerator =
  params :: TerrainParams
  height_cache :: "64 word \<rightharpoonup> real"

definition TerrainGenerator_new :: TerrainGenerator where
  "TerrainGenerator_new = \<lparr> params = default_TerrainParams, height_cache = Map.empty \<rparr>"

definition clear_cache :: "TerrainGenerator \<Rightarrow> TerrainGenerator" where
  "clear_cache g = g\<lparr> height_cache := Map.empty \<rparr>"

definition set_params :: "TerrainGenerator \<Rightarrow> TerrainParams \<Rightarrow> TerrainGenerator" where
  "set_params g p = clear_cache (g\<lparr> params := p \<rparr>)"

text \<open>
  \<open>(static_cast<uint64_t>(wx) << 32) | static_cast<uint64_t>(wz)\<close>: the conversion of an
  \<open>int32_t\<close> to \<open>uint64_t\<close> is the value modulo \<open>2^64\<close>, which \<open>word_of_int\<close> computes.
\<close>

definition make_cache_key :: "int \<Rightarrow> int \<Rightarrow> 64 word" where
  "make_cache_key wx wz = push_bit 32 (word_of_int wx) OR word_of_int wz"

text \<open>
  \<open>params.base_height + (noise_value * params.max_height_variation)\<close>: both integers are
  converted to float, the product is rounded, then the sum.
\<close>

definition get_height_at ::
  "(int \<Rightarrow> int \<Rightarrow> real) \<Rightarrow> TerrainGenerator \<Rightarrow> int \<Rightarrow> int \<Rightarrow> real \<times> TerrainGenerator" where
  "get_height_at noise g world_x world_z =
     (let key = make_cache_key world_x world_z
      in case height_cache g key of
           Some height \<Rightarrow> (height, g)
         | None \<Rightarrow>
             let noise_value = noise world_x world_z;
                 height = round_f32
                            (round_f32 (of_int (base_height (params g))) +
                             round_f32 (noise_value *
                                        round_f32 (of_int (max_height_variation (params g)))))
             in (height, g\<lparr> height_cache := (height_cache g)(key \<mapsto> height) \<rparr>))"

definition get_surface_block :: "TerrainParams \<Rightarrow> real \<Rightarrow> real \<Rightarrow> VoxelTypeID" where
  "get_surface_block p height noise_value =
     (if noise_value > mountain_threshold p
      then (if height > round_f32 (of_int (base_height p + 15)) then STONE else GRAVEL)
      else if noise_value < beach_threshold p then SAND
      else if height > water_level p then GRASS
      else SAND)"

text \<open>A loop whose body may fail: it stops at the first \<open>None\<close>.\<close>

fun fold_option :: "('a \<Rightarrow> 's \<Rightarrow> 's option) \<Rightarrow> 'a list \<Rightarrow> 's \<Rightarrow> 's option" where
  "fold_option f [] s = Some s"
| "fold_option f (a # as) s = (case f a s of None \<Rightarrow> None | Some s' \<Rightarrow> fold_option f as s')"

text \<open>
  The coarse pass of \<open>generate_chunk\<close> over every fourth column: the state is the
  generator with the two flags \<open>all_above_terrain\<close> and \<open>all_below_terrain\<close>.
\<close>

definition sample_column ::
  "(int \<Rightarrow> int \<Rightarrow> real) \<Rightarrow> int \<Rightarrow> int \<Rightarrow> int \<Rightarrow> int \<Rightarrow> int \<times> int \<Rightarrow>
   TerrainGenerator \<times> bool \<times> bool \<Rightarrow> TerrainGenerator \<times> bool \<times> bool" where
  "sample_column noise chunk_world_y_base chunk_world_y_max world_x_base world_z_base zx st =
     (case zx of (z, x) \<Rightarrow>
      case st of (g, all_above_terrain, all_below_terrain) \<Rightarrow>
        let wx = world_x_base + x;
            wz = world_z_base + z
        in case get_height_at noise g wx wz of (height, g') \<Rightarrow>
             (g',
              (if round_f32 (of_int chunk_world_y_base) \<le> height
               then False else all_above_terrain),
              (if round_f32 (of_int (chunk_world_y_max - 1)) \<ge> height
               then False else all_below_terrain)))"

definition sampled_columns :: "(int \<times> int) list" where
  "sampled_columns = concat (map (\<lambda>z. map (\<lambda>x. (z, x)) [0, 4, 8, 12]) [0, 4, 8, 12])"

text \<open>
  The body of the innermost loop: the block type chosen for world height \<open>wy\<close>. In a
  comparison with a float, \<open>wy\<close> is converted to float; \<open>height - 4\<close> is a float
  subtraction; \<open>wy == static_cast<int32_t>(height)\<close> compares integers.
\<close>

definition classify_voxel :: "TerrainParams \<Rightarrow> real \<Rightarrow> real \<Rightarrow> int \<Rightarrow> VoxelTypeID" where
  "classify_voxel p height noise_value wy =
     (if round_f32 (of_int wy) < height
      then (if round_f32 (of_int wy) < round_f32 (height - round_f32 (of_int 4))
            then STONE else DIRT)
      else if wy = float_to_int height then get_surface_block p height noise_value
      else if round_f32 (of_int wy) < water_level p then WATER
      else AIR)"

definition generate_cell ::
  "TerrainParams \<Rightarrow> real \<Rightarrow> real \<Rightarrow> int \<Rightarrow> int \<Rightarrow> int \<Rightarrow> int \<Rightarrow> VoxelData \<Rightarrow> VoxelData option" where
  "generate_cell p height noise_value chunk_world_y_base x z y vd =
     (let wy = chunk_world_y_base + y;
          voxel_type = classify_voxel p height noise_value wy
      in if voxel_type \<noteq> AIR then set_voxel vd x y z voxel_type else Some vd)"

text \<open>One column \<open>(x, z)\<close>: the height and the noise value once, then the loop over \<open>y\<close>.\<close>

definition generate_column ::
  "(int \<Rightarrow> int \<Rightarrow> real) \<Rightarrow> int \<Rightarrow> int \<Rightarrow> int \<Rightarrow> int \<Rightarrow> int \<Rightarrow> int \<Rightarrow>
   TerrainGenerator \<times> VoxelData \<Rightarrow> (TerrainGenerator \<times> VoxelData) option" where
  "generate_column noise chunk_size chunk_world_y_base world_x_base world_z_base z x st =
     (case st of (g, vd) \<Rightarrow>
        let wx = world_x_base + x;
            wz = world_z_base + z
        in case get_height_at noise g wx wz of (height, g') \<Rightarrow>
             let noise_value = noise wx wz
             in (case fold_option (generate_cell (params g) height noise_value chunk_world_y_base x z)
                        [0..chunk_size - 1] vd of
                   None \<Rightarrow> None
                 | Some vd' \<Rightarrow> Some (g', vd')))"

text \<open>The loop nest ``Generate voxels'': \<open>z\<close> outermost, then \<open>x\<close>, then \<open>y\<close>.\<close>

definition generate_voxels ::
  "(int \<Rightarrow> int \<Rightarrow> real) \<Rightarrow> int \<Rightarrow> int \<Rightarrow> int \<Rightarrow> int \<Rightarrow>
   TerrainGenerator \<times> VoxelData \<Rightarrow> (TerrainGenerator \<times> VoxelData) option" where
  "generate_voxels noise chunk_size chunk_world_y_base world_x_base world_z_base st =
     fold_option
       (\<lambda>z. fold_option
          (\<lambda>x. generate_column noise chunk_size chunk_world_y_base world_x_base world_z_base z x)
          [0..CHUNK_SIZE_XZ - 1])
       [0..CHUNK_SIZE_XZ - 1] st"

definition generate_chunk ::
  "(int \<Rightarrow> int \<Rightarrow> real) \<Rightarrow> TerrainGenerator \<Rightarrow> 'mesh Chunk \<Rightarrow>
   (TerrainGenerator \<times> 'mesh Chunk) option" where
  "generate_chunk noise g c =
     (case voxel_data c of
        None \<Rightarrow> Some (g, c)
      | Some vd \<Rightarrow>
          (case position c of (px, py, pz) \<Rightarrow>
             let chunk_size = chunk_size_y vd;
                 chunk_world_y_base = py * chunk_size;
                 chunk_world_y_max = chunk_world_y_base + chunk_size;
                 world_x_base = px * CHUNK_SIZE_XZ;
                 world_z_base = pz * CHUNK_SIZE_XZ
             in case fold (sample_column noise chunk_world_y_base chunk_world_y_max
                             world_x_base world_z_base) sampled_columns (g, True, True) of
                  (g1, all_above_terrain, all_below_terrain) \<Rightarrow>
                    if all_above_terrain
                    then Some (g1, set_state (c\<lparr> voxel_data := Some (fill vd AIR) \<rparr>) ACTIVE)
                    else
                      (case generate_voxels noise chunk_size chunk_world_y_base
                              world_x_base world_z_base (g1, vd) of
                         None \<Rightarrow> None
                       | Some (g2, vd2) \<Rightarrow>
                           (case check_and_optimize_uniform vd2 of
                              None \<Rightarrow> None
                            | Some (r, vd3) \<Rightarrow>
                                Some (g2, set_state (c\<lparr> voxel_data := Some vd3 \<rparr>) ACTIVE)))))"

text \<open>
  The columns of the loop nest as pairs \<open>(z, x)\<close> in the order the loops visit them, the
  ones visited before column \<open>(x, z)\<close>, and the loop nest run on a list of columns.
\<close>

definition all_columns :: "(int \<times> int) list" where
  "all_columns = List.product [0..CHUNK_SIZE_XZ - 1] [0..CHUNK_SIZE_XZ - 1]"

definition columns_before :: "int \<Rightarrow> int \<Rightarrow> (int \<times> int) list" where
  "columns_before z x = takeWhile (\<lambda>c. c \<noteq> (z, x)) all_columns"

definition generate_columns ::
  "(int \<Rightarrow> int \<Rightarrow> real) \<Rightarrow> int \<Rightarrow> int \<Rightarrow> int \<Rightarrow> int \<Rightarrow> (int \<times> int) list \<Rightarrow>
   TerrainGenerator \<times> VoxelData \<Rightarrow> (TerrainGenerator \<times> VoxelData) option" where
  "generate_columns noise chunk_size chunk_world_y_base world_x_base world_z_base cols st =
     fold_option
       (\<lambda>c. case c of (z, x) \<Rightarrow>
          generate_column noise chunk_size chunk_world_y_base world_x_base world_z_base z x)
       cols st"

text \<open>Columns inside the chunk.\<close>

definition columns_ok :: "(int \<times> int) list \<Rightarrow> bool" where
  "columns_ok cols \<longleftrightarrow> (\<forall>c\<in>set cols. 0 \<le> fst c \<and> fst c < 16 \<and> 0 \<le> snd c \<and> snd c < 16)"

section \<open>Surface mesher (systems/chunk\_mesh\_builder.h, systems/chunk\_mesh\_builder.cpp)\<close>

text \<open>
  The greedy merge of one layer mask in \<open>greedy_mesh_face\<close>. The mask is the
  \<open>std::vector<VoxelTypeID>\<close> of the builder, indexed \<open>u + v * u_size\<close>; the loop
  counters are natural numbers (they never go below zero). The source resizes the mask to
  at least \<open>u_size * v_size\<close> cells before the loops, and the loops read and write only
  below that index. \<open>MeshData\<close> is the list of
  the quads given to \<open>add_quad\<close>, each with its position, size, face and colour; the
  registry colour of a block type is the parameter \<open>color_of\<close>.
\<close>

datatype Face = FACE_LEFT | FACE_RIGHT | FACE_DOWN | FACE_UP | FACE_BACK | FACE_FRONT

record 'color Quad =
  quad_pos :: Vector3
  quad_size :: Vector3
  quad_face :: Face
  quad_color :: 'color

text \<open>The \<open>switch\<close> that chooses the sweep axes: the axis normal to the face.\<close>

definition w_axis_of :: "Face \<Rightarrow> nat" where
  "w_axis_of face =
     (case face of
        FACE_LEFT \<Rightarrow> 0 | FACE_RIGHT \<Rightarrow> 0
      | FACE_DOWN \<Rightarrow> 1 | FACE_UP \<Rightarrow> 1
      | FACE_BACK \<Rightarrow> 2 | FACE_FRONT \<Rightarrow> 2)"

text \<open>``Find width of quad'': the \<open>while\<close> loop that grows \<open>width\<close> along \<open>u\<close>.\<close>

function find_width :: "VoxelTypeID list \<Rightarrow> nat \<Rightarrow> nat \<Rightarrow> nat \<Rightarrow> VoxelTypeID \<Rightarrow> nat \<Rightarrow> nat" where
  "find_width msk u v u_size voxel_type width =
     (if u + width < u_size \<and> msk ! (u + width + v * u_size) = voxel_type
      then find_width msk u v u_size voxel_type (width + 1)
      else width)"
  by pat_completeness auto
termination
  by (relation "measure (\<lambda>(msk, u, v, u_size, voxel_type, width). u_size - (u + width))") auto

declare find_width.simps [simp del]

text \<open>
  The inner \<open>for\<close> loop of ``find height of quad'': it leaves \<open>done\<close> false exactly when
  every cell of the run in row \<open>row\<close> matches.
\<close>

definition row_matches :: "VoxelTypeID list \<Rightarrow> nat \<Rightarrow> nat \<Rightarrow> nat \<Rightarrow> VoxelTypeID \<Rightarrow> nat \<Rightarrow> bool" where
  "row_matches msk u row u_size voxel_type width \<longleftrightarrow>
     list_all (\<lambda>k. msk ! (u + k + row * u_size) = voxel_type) [0..<width]"

function find_height ::
  "VoxelTypeID list \<Rightarrow> nat \<Rightarrow> nat \<Rightarrow> nat \<Rightarrow> nat \<Rightarrow> VoxelTypeID \<Rightarrow> nat \<Rightarrow> nat \<Rightarrow> nat" where
  "find_height msk u v u_size v_size voxel_type width height =
     (if v + height < v_size \<and> row_matches msk u (v + height) u_size voxel_type width
      then find_height msk u v u_size v_size voxel_type width (height + 1)
      else height)"
  by pat_completeness auto
termination
  by (relation "measure (\<lambda>(msk, u, v, u_size, v_size, voxel_type, width, height).
                           v_size - (v + height))") auto

declare find_height.simps [simp del]

text \<open>``Clear mask for processed area''.\<close>

definition clear_rect :: "VoxelTypeID list \<Rightarrow> nat \<Rightarrow> nat \<Rightarrow> nat \<Rightarrow> nat \<Rightarrow> nat \<Rightarrow> VoxelTypeID list" where
  "clear_rect msk u v u_size width height =
     fold (\<lambda>h m. fold (\<lambda>k m'. m'[u + k + (v + h) * u_size := AIR]) [0..<width] m)
       [0..<height] msk"

text \<open>
  ``Create quad'': position and size by the sweep axis. The loop counters are converted to
  float in the \<open>Vector3\<close> constructor, and \<open>w + offset\<close> is a float addition.
\<close>

definition make_quad ::
  "(VoxelTypeID \<Rightarrow> 'color) \<Rightarrow> Face \<Rightarrow> nat \<Rightarrow> nat \<Rightarrow> nat \<Rightarrow> nat \<Rightarrow> nat \<Rightarrow> VoxelTypeID \<Rightarrow> 'color Quad" where
  "make_quad color_of face w u v width height voxel_type =
     (if w_axis_of face = 0
      then \<lparr> quad_pos = (round_f32 (round_f32 (of_nat w) + (if face = FACE_RIGHT then 1 else 0)),
                         round_f32 (of_nat v), round_f32 (of_nat u)),
             quad_size = (0, round_f32 (of_nat height), round_f32 (of_nat width)),
             quad_face = face, quad_color = color_of voxel_type \<rparr>
      else if w_axis_of face = 1
      then \<lparr> quad_pos = (round_f32 (of_nat u),
                         round_f32 (round_f32 (of_nat w) + (if face = FACE_UP then 1 else 0)),
                         round_f32 (of_nat v)),
             quad_size = (round_f32 (of_nat width), 0, round_f32 (of_nat height)),
             quad_face = face, quad_color = color_of voxel_type \<rparr>
      else \<lparr> quad_pos = (round_f32 (of_nat u), round_f32 (of_nat v),
                         round_f32 (round_f32 (of_nat w) + (if face = FACE_FRONT then 1 else 0))),
             quad_size = (round_f32 (of_nat width), round_f32 (of_nat height), 0),
             quad_face = face, quad_color = color_of voxel_type \<rparr>)"

lemma find_width_ge: "width \<le> find_width msk u v u_size voxel_type width"
proof (induction msk u v u_size voxel_type width rule: find_width.induct)
  case (1 msk u v u_size voxel_type width)
  show ?case
  proof (cases "u + width < u_size \<and> msk ! (u + width + v * u_size) = voxel_type")
    case True
    from 1 [OF True] have "width \<le> find_width msk u v u_size voxel_type (width + 1)" by simp
    with True show ?thesis by (subst find_width.simps) simp
  next
    case False
    then show ?thesis by (subst find_width.simps) auto
  qed
qed

text \<open>
  The loop over \<open>u\<close> in one row \<open>v\<close>: \<open>for (u = 0; u < u_size; )\<close>, which steps by one over
  an empty cell and by the width of the quad over a merged run.
\<close>

function scan_row ::
  "(VoxelTypeID \<Rightarrow> 'color) \<Rightarrow> Face \<Rightarrow> nat \<Rightarrow> nat \<Rightarrow> nat \<Rightarrow> nat \<Rightarrow> nat \<Rightarrow>
   VoxelTypeID list \<times> 'color Quad list \<Rightarrow> VoxelTypeID list \<times> 'color Quad list" where
  "scan_row color_of face w u_size v_size v u (msk, mesh_data) =
     (if u < u_size
      then
        let voxel_type = msk ! (u + v * u_size)
        in if voxel_type = AIR
           then scan_row color_of face w u_size v_size v (u + 1) (msk, mesh_data)
           else
             let width = find_width msk u v u_size voxel_type 1;
                 height = find_height msk u v u_size v_size voxel_type width 1;
                 quad = make_quad color_of face w u v width height voxel_type;
                 msk' = clear_rect msk u v u_size width height
             in scan_row color_of face w u_size v_size v (u + width) (msk', mesh_data @ [quad])
      else (msk, mesh_data))"
  by pat_completeness auto
termination
proof (relation "measure (\<lambda>(color_of, face, w, u_size, v_size, v, u, st). u_size - u)",
    goal_cases)
  case 1
  show ?case by simp
next
  case (2 color_of face w u_size v_size v u msk mesh_data voxel_type)
  then show ?case by simp
next
  case (3 color_of face w u_size v_size v u msk mesh_data voxel_type width height quad msk')
  have "1 \<le> find_width msk u v u_size voxel_type 1" by (rule find_width_ge)
  with 3 show ?case by simp
qed

declare scan_row.simps [simp del]

text \<open>``Greedy meshing on the mask'': the rows \<open>v = 0, ..., v_size - 1\<close> in turn.\<close>

definition greedy_merge ::
  "(VoxelTypeID \<Rightarrow> 'color) \<Rightarrow> Face \<Rightarrow> nat \<Rightarrow> nat \<Rightarrow> nat \<Rightarrow>
   VoxelTypeID list \<times> 'color Quad list \<Rightarrow> VoxelTypeID list \<times> 'color Quad list" where
  "greedy_merge color_of face w u_size v_size st =
     fold (\<lambda>v. scan_row color_of face w u_size v_size v 0) [0..<v_size] st"

text \<open>
  A layer mask whose non-empty cells form exactly the rectangle with corner \<open>(u0, v0)\<close>,
  width \<open>rw\<close> and height \<open>rh\<close>, all of block type \<open>t\<close>.
\<close>

definition single_rectangle_mask ::
  "VoxelTypeID list \<Rightarrow> nat \<Rightarrow> nat \<Rightarrow> nat \<Rightarrow> nat \<Rightarrow> nat \<Rightarrow> nat \<Rightarrow> VoxelTypeID \<Rightarrow> bool" where
  "single_rectangle_mask msk u_size v_size u0 v0 rw rh t \<longleftrightarrow>
     u_size * v_size \<le> length msk \<and> 0 < rw \<and> 0 < rh \<and>
     u0 + rw \<le> u_size \<and> v0 + rh \<le> v_size \<and> t \<noteq> AIR \<and>
     list_all
       (\<lambda>v. list_all
          (\<lambda>u. msk ! (u + v * u_size) =
                 (if u0 \<le> u \<and> u < u0 + rw \<and> v0 \<le> v \<and> v < v0 + rh then t else AIR))
          [0..<u_size])
       [0..<v_size]"

chapter \<open>Properties\<close>

section \<open>Properties of single-precision rounding\<close>

lemma round_even_of_int: "round_even (of_int z) = z"
  by (simp add: round_even_def)

lemma round_even_bounds: "\<lfloor>r\<rfloor> \<le> round_even r \<and> round_even r \<le> \<lceil>r\<rceil>"
proof -
  have "\<lfloor>r\<rfloor> + 1 \<le> \<lceil>r\<rceil>" if "r - of_int \<lfloor>r\<rfloor> \<ge> 1 / 2"
  proof -
    from that have "of_int \<lfloor>r\<rfloor> < r" by linarith
    then show ?thesis by linarith
  qed
  moreover have "\<lfloor>r\<rfloor> \<le> \<lceil>r\<rceil>" by linarith
  ultimately show ?thesis
    unfolding round_even_def Let_def by (auto simp: not_less)
qed

lemma round_f32_zero: "round_f32 0 = 0"
  by (simp add: round_f32_def round_even_def)

text \<open>
  A number whose multiple by \<open>2^149\<close> is an integer of at most 24 bits times a power of two
  is a float: rounding leaves it unchanged.
\<close>

lemma round_f32_exact:
  assumes "x * 2 ^ 149 = of_int (m * 2 ^ i)" "\<bar>m\<bar> \<le> 2 ^ 24"
  shows "round_f32 x = x"
proof (cases "m = 0")
  case True
  with assms(1) have "x = 0" by simp
  then show ?thesis by (simp add: round_f32_zero)
next
  case False
  define k where "k = nat (bitlen \<lfloor>\<bar>x * 2 ^ 149\<bar>\<rfloor> - 24)"
  have a: "\<bar>x * 2 ^ 149\<bar> = of_int (\<bar>m\<bar> * 2 ^ i)"
    unfolding assms(1) by (simp add: abs_mult)
  have fl: "\<lfloor>\<bar>x * 2 ^ 149\<bar>\<rfloor> = \<bar>m\<bar> * 2 ^ i"
    unfolding a by (rule floor_of_int)
  have pos: "0 < \<bar>m\<bar>" using False by simp
  have bl: "bitlen (\<bar>m\<bar> * 2 ^ i) = bitlen \<bar>m\<bar> + int i"
    using bitlen_pow2 [OF pos, of i] by simp
  have k: "k = nat (bitlen \<bar>m\<bar> + int i - 24)" unfolding k_def fl bl by (rule refl)
  have dv: "2 ^ k dvd m * 2 ^ i"
  proof (cases "\<bar>m\<bar> = 2 ^ 24")
    case True
    have "bitlen (2 ^ 24) = 25" using bitlen_twopow_add_eq [of 0 24] by simp
    then have "bitlen \<bar>m\<bar> = 25" using True by simp
    then have k': "k = i + 1" using k by simp
    from True have "m = 2 ^ 24 \<or> m = - (2 ^ 24)" by linarith
    then have "m * 2 ^ i = 2 ^ 23 * 2 ^ k \<or> m * 2 ^ i = - (2 ^ 23) * 2 ^ k"
      by (auto simp: k')
    then show ?thesis by (metis dvd_triv_right)
  next
    case False
    with assms(2) have "\<bar>m\<bar> < 2 ^ nat 24" by simp
    then have "bitlen \<bar>m\<bar> \<le> 24" by (simp add: bitlen_le_iff_power)
    then have "k \<le> i" using k by simp
    then have "(2 :: int) ^ k dvd 2 ^ i" by (rule le_imp_power_dvd)
    then show ?thesis by (rule dvd_mult)
  qed
  then obtain z where z: "m * 2 ^ i = 2 ^ k * z" by (auto simp: dvd_def)
  have q: "x * 2 ^ 149 / 2 ^ k = of_int z"
    unfolding assms(1) z by simp
  have zz: "real_of_int z * 2 ^ k = x * 2 ^ 149"
    unfolding assms(1) z by simp
  have "round_f32 x = of_int (round_even (x * 2 ^ 149 / 2 ^ k)) * 2 ^ k / 2 ^ 149"
    unfolding round_f32_def Let_def k_def by (rule refl)
  also have "\<dots> = real_of_int z * 2 ^ k / 2 ^ 149"
    unfolding q round_even_of_int by (rule refl)
  also have "\<dots> = x * 2 ^ 149 / 2 ^ 149" by (simp only: zz)
  also have "\<dots> = x" by simp
  finally show ?thesis .
qed

lemma round_f32_of_int:
  assumes "\<bar>i\<bar> \<le> 2 ^ 24"
  shows "round_f32 (of_int i) = of_int i"
proof (rule round_f32_exact [of _ i 149])
  show "real_of_int i * 2 ^ 149 = real_of_int (i * 2 ^ 149)" by simp
qed (rule assms)

lemma round_f32_dyadic:
  assumes "\<bar>m\<bar> \<le> 2 ^ 24" "j \<le> 149"
  shows "round_f32 (of_int m / 2 ^ j) = of_int m / 2 ^ j"
proof (rule round_f32_exact [of _ m "149 - j"])
  have e: "(2 :: real) ^ 149 = 2 ^ (149 - j) * 2 ^ j"
    using assms(2) by (simp flip: power_add)
  have "real_of_int m / 2 ^ j * 2 ^ 149 = real_of_int m / 2 ^ j * (2 ^ (149 - j) * 2 ^ j)"
    by (simp only: e)
  also have "\<dots> = real_of_int (m * 2 ^ (149 - j))" by simp
  finally show "real_of_int m / 2 ^ j * 2 ^ 149 = real_of_int (m * 2 ^ (149 - j))" .
qed (rule assms(1))

text \<open>
  Every result of \<open>round_f32\<close> is an integer of at most 24 bits times a power of two, the
  power being the one the definition computes.
\<close>

lemma round_f32_form:
  "\<exists>M. round_f32 x * 2 ^ 149 = of_int (M * 2 ^ nat (bitlen \<lfloor>\<bar>x * 2 ^ 149\<bar>\<rfloor> - 24)) \<and>
        \<bar>M\<bar> \<le> 2 ^ 24 \<and> (0 \<le> x \<longrightarrow> 0 \<le> M)"
proof -
  define s where "s = x * 2 ^ 149"
  define b where "b = bitlen \<lfloor>\<bar>s\<bar>\<rfloor>"
  define k where "k = nat (b - 24)"
  define M where "M = round_even (s / 2 ^ k)"
  have b0: "0 \<le> b" by (simp add: b_def bitlen_nonneg)
  have "\<lfloor>\<bar>s\<bar>\<rfloor> < 2 ^ nat b"
    using bitlen_le_iff_power [of "\<lfloor>\<bar>s\<bar>\<rfloor>" b] b0 by (simp add: b_def)
  then have "\<bar>s\<bar> < 2 ^ nat b"
    by (metis floor_less_iff of_int_numeral of_int_power)
  also have "(2 :: real) ^ nat b \<le> 2 ^ (k + 24)"
    by (rule power_increasing) (simp_all add: k_def)
  finally have "\<bar>s\<bar> / 2 ^ k < 2 ^ 24"
    by (simp add: power_add divide_less_eq mult.commute)
  moreover define q where "q = s / 2 ^ k"
  ultimately have "\<bar>q\<bar> < 2 ^ 24" by (simp add: abs_divide)
  then have "- (2 ^ 24) < q" "q < 2 ^ 24" by linarith+
  then have "- (2 ^ 24) \<le> \<lfloor>q\<rfloor>" "\<lceil>q\<rceil> \<le> 2 ^ 24"
    by (simp_all add: le_floor_iff ceiling_le_iff)
  with round_even_bounds [of q] have M: "\<bar>M\<bar> \<le> 2 ^ 24"
    unfolding M_def q_def [symmetric] by linarith
  have nn: "0 \<le> M" if "0 \<le> x"
  proof -
    from that have "0 \<le> s / 2 ^ k" by (simp add: s_def)
    then have "0 \<le> \<lfloor>s / 2 ^ k\<rfloor>" by (simp only: zero_le_floor)
    with round_even_bounds [of "s / 2 ^ k"] show ?thesis unfolding M_def by linarith
  qed
  have "round_f32 x * 2 ^ 149 = of_int (M * 2 ^ k)"
    unfolding round_f32_def Let_def M_def k_def b_def s_def by simp
  with M nn show ?thesis unfolding k_def b_def s_def by blast
qed

text \<open>Rounding a float again changes nothing.\<close>

lemma round_f32_idem: "round_f32 (round_f32 x) = round_f32 x"
proof -
  from round_f32_form [of x] obtain M where
    "round_f32 x * 2 ^ 149 = of_int (M * 2 ^ nat (bitlen \<lfloor>\<bar>x * 2 ^ 149\<bar>\<rfloor> - 24))" "\<bar>M\<bar> \<le> 2 ^ 24"
    by blast
  then show ?thesis by (rule round_f32_exact)
qed

text \<open>For a float \<open>h\<close> from 4 up to \<open>2^26\<close> the float subtraction \<open>h - 4\<close> is exact.\<close>

lemma round_f32_minus_4:
  assumes "round_f32 h = h" "4 \<le> h" "h < 2 ^ 26"
  shows "round_f32 (h - 4) = h - 4"
proof -
  define k where "k = nat (bitlen \<lfloor>\<bar>h * 2 ^ 149\<bar>\<rfloor> - 24)"
  from round_f32_form [of h] assms(1,2) obtain M where
    M: "h * 2 ^ 149 = of_int (M * 2 ^ k)" "\<bar>M\<bar> \<le> 2 ^ 24" "0 \<le> M"
    unfolding k_def by auto
  have "\<bar>h * 2 ^ 149\<bar> < 2 ^ 26 * 2 ^ 149" using assms(2,3) by simp
  then have "\<lfloor>\<bar>h * 2 ^ 149\<bar>\<rfloor> < 2 ^ nat 175"
    by (simp add: floor_less_iff flip: power_add)
  then have "bitlen \<lfloor>\<bar>h * 2 ^ 149\<bar>\<rfloor> \<le> 175" by (simp add: bitlen_le_iff_power)
  then have k: "k \<le> 151" by (simp add: k_def)
  have p: "(4 :: real) * 2 ^ 149 = of_int (2 ^ (151 - k) * 2 ^ k)"
    using k by (simp flip: power_add)
  have e: "(h - 4) * 2 ^ 149 = of_int ((M - 2 ^ (151 - k)) * 2 ^ k)"
    using M(1) p by (simp add: algebra_simps)
  have "0 \<le> (h - 4) * 2 ^ 149" using assms(2) by simp
  then have "0 \<le> (M - 2 ^ (151 - k)) * (2 :: int) ^ k" unfolding e by linarith
  then have "0 \<le> M - 2 ^ (151 - k)" by (simp add: zero_le_mult_iff)
  moreover have "(0 :: int) \<le> 2 ^ (151 - k)" by simp
  ultimately have "\<bar>M - 2 ^ (151 - k)\<bar> \<le> 2 ^ 24" using M(2,3) by linarith
  with e show ?thesis by (rule round_f32_exact)
qed

lemma round_f32_of_nat:
  assumes "n \<le> 2 ^ 24"
  shows "round_f32 (of_nat n) = of_nat n"
proof -
  have "\<bar>int n\<bar> \<le> 2 ^ 24" using assms by (simp add: le_nat_iff nat_le_iff) linarith?
  from round_f32_of_int [OF this] show ?thesis by simp
qed

lemma round_f32_numeral:
  "(numeral n :: int) \<le> 2 ^ 24 \<Longrightarrow> round_f32 (numeral n) = numeral n"
  using round_f32_of_int [of "numeral n"] by simp

lemma round_f32_neg_numeral:
  "(numeral n :: int) \<le> 2 ^ 24 \<Longrightarrow> round_f32 (- numeral n) = - numeral n"
  using round_f32_of_int [of "- numeral n"] by simp

lemma round_f32_one: "round_f32 1 = 1"
  using round_f32_of_int [of 1] by simp

lemmas round_f32_small = round_f32_zero round_f32_one round_f32_numeral round_f32_neg_numeral

text \<open>The float literals of \<open>TerrainParams\<close>.\<close>

lemma default_TerrainParams_values:
  "default_TerrainParams =
     \<lparr> base_height = 64, max_height_variation = 24, noise_frequency = 5368709 / 2 ^ 29,
       seed = 12345, mountain_threshold = 5033165 / 2 ^ 23,
       beach_threshold = - (5033165 / 2 ^ 24), water_level = 64 \<rparr>"
proof -
  have "round_f32 (1 / 100) = 5368709 / 2 ^ 29" by code_simp
  moreover have "round_f32 (6 / 10) = 5033165 / 2 ^ 23" by code_simp
  moreover have "round_f32 (- (3 / 10)) = - (5033165 / 2 ^ 24)" by code_simp
  moreover have "round_f32 (of_int 64) = 64" using round_f32_of_int [of 64] by simp
  ultimately show ?thesis by (simp only: default_TerrainParams_def)
qed

section \<open>Properties of the chunk storage\<close>

lemmas block_defs = AIR_def STONE_def DIRT_def GRASS_def SAND_def WATER_def GRAVEL_def

subsection \<open>The representation invariant\<close>

lemma storage_inv_VoxelData_new: "- (2^23) \<le> c \<Longrightarrow> c < 2^23 \<Longrightarrow> storage_inv (VoxelData_new c)"
  by (simp add: storage_inv_def VoxelData_new_def CHUNK_SIZE_XZ_def)

lemma storage_inv_fill: "storage_inv s \<Longrightarrow> storage_inv (fill s t)"
  by (simp add: storage_inv_def fill_def)

lemma storage_inv_clear_data: "storage_inv s \<Longrightarrow> storage_inv (clear_data s)"
  by (simp add: storage_inv_def clear_data_def)

lemma storage_inv_initialize_data: "- (2^23) \<le> c \<Longrightarrow> c < 2^23 \<Longrightarrow> storage_inv (initialize_data s c)"
  by (simp add: storage_inv_def initialize_data_def CHUNK_SIZE_XZ_def)

lemma index_inj:
  fixes x y z x' y' z' c :: int
  assumes "0 \<le> x" "x < 16" "0 \<le> y" "y < c" "0 \<le> z"
    "0 \<le> x'" "x' < 16" "0 \<le> y'" "y' < c" "0 \<le> z'"
    "x + y * 16 + z * 16 * c = x' + y' * 16 + z' * 16 * c"
  shows "x = x' \<and> y = y' \<and> z = z'"
proof -
  have e: "x + 16 * (y + z * c) = x' + 16 * (y' + z' * c)"
    using assms(11) by (simp add: algebra_simps)
  define k where "k = y + z * c"
  define k' where "k' = y' + z' * c"
  have "(x + 16 * k) mod 16 = x" "(x' + 16 * k') mod 16 = x'"
    using assms by simp_all
  with e have x: "x = x'" unfolding k_def k'_def by simp
  with e have yz: "y + z * c = y' + z' * c" by simp
  have c: "0 < c" using assms by linarith
  have "(y + z * c) div c = z" "(y' + z' * c) div c = z'"
    using assms c by simp_all
  with yz have z: "z = z'" by simp
  with yz have "y = y'" by simp
  with x z show ?thesis by simp
qed

lemma get_index_inj:
  assumes "in_bounds s x y z" "in_bounds s x' y' z'"
    "get_index s x y z = get_index s x' y' z'"
  shows "x = x' \<and> y = y' \<and> z = z'"
  using assms index_inj [of x y "chunk_size_y s" z x' y' z']
  by (simp add: in_bounds_def get_index_def CHUNK_SIZE_XZ_def)

lemma index_range:
  fixes x y z c :: int
  assumes "0 \<le> x" "x < 16" "0 \<le> y" "y < c" "0 \<le> z" "z < 16"
  shows "0 \<le> x + y * 16 + z * 16 * c \<and> x + y * 16 + z * 16 * c < 16 * 16 * c"
proof -
  have c: "0 < c" using assms by linarith
  have a: "x + y * 16 \<le> 16 * c - 1" using assms by arith
  have "z * c \<le> 15 * c" using assms c by (simp add: mult_right_mono)
  then have b: "z * 16 * c \<le> 15 * 16 * c" by (simp add: mult.commute)
  have "0 \<le> z * c" using assms c by simp
  then have d: "0 \<le> z * 16 * c" by (simp add: mult.commute)
  from a b d assms show ?thesis by linarith
qed

lemma get_index_range:
  assumes "in_bounds s x y z" "total_voxels s = CHUNK_SIZE_XZ * CHUNK_SIZE_XZ * chunk_size_y s"
  shows "0 \<le> get_index s x y z \<and> get_index s x y z < total_voxels s"
  using assms index_range [of x y "chunk_size_y s" z]
  by (simp add: in_bounds_def get_index_def CHUNK_SIZE_XZ_def)

lemma index_surj:
  fixes i c :: int
  assumes "0 \<le> i" "i < 16 * 16 * c"
  shows "\<exists>x y z. 0 \<le> x \<and> x < 16 \<and> 0 \<le> y \<and> y < c \<and> 0 \<le> z \<and> z < 16 \<and>
           x + y * 16 + z * 16 * c = i"
proof -
  have c: "0 < c" using assms by (cases "0 < c") (auto simp: not_less mult_le_0_iff)
  define x where "x = i mod 16"
  define q where "q = i div 16"
  define y where "y = q mod c"
  define z where "z = q div c"
  have i: "i = x + q * 16" by (simp add: x_def q_def)
  have q: "q = y + z * c" by (simp add: y_def z_def)
  have q0: "0 \<le> q" using assms by (simp add: q_def)
  have q1: "q < 16 * c" using assms by (simp add: q_def div_less_iff_less_mult)
  have z0: "0 \<le> z" using q0 c by (simp add: z_def pos_imp_zdiv_nonneg_iff)
  have z1: "z < 16"
  proof (rule ccontr)
    assume "\<not> z < 16"
    then have "16 * c \<le> z * c" using c by (simp add: mult_right_mono)
    moreover have "0 \<le> y" using c by (simp add: y_def)
    ultimately show False using q q1 by linarith
  qed
  have "0 \<le> x \<and> x < 16 \<and> 0 \<le> y \<and> y < c" using c by (simp add: x_def y_def)
  moreover have "x + y * 16 + z * 16 * c = i" using i q by (simp add: algebra_simps)
  ultimately show ?thesis using z0 z1 by blast
qed

lemma get_index_surj:
  assumes "0 \<le> i" "i < total_voxels s" "total_voxels s = CHUNK_SIZE_XZ * CHUNK_SIZE_XZ * chunk_size_y s"
  shows "\<exists>x y z. in_bounds s x y z \<and> get_index s x y z = i"
  using assms index_surj [of i "chunk_size_y s"]
  by (simp add: in_bounds_def get_index_def CHUNK_SIZE_XZ_def not_le not_less)


lemma get_voxel_in_bounds:
  assumes "storage_inv s" "in_bounds s x y z"
  shows "\<exists>v. get_voxel s x y z = Some v"
proof (cases "is_uniform s")
  case True
  then show ?thesis by (simp add: get_voxel_def)
next
  case False
  with assms(1) obtain buf where buf: "data s = Some buf" "int (length buf) = total_voxels s"
    and tv: "total_voxels s = CHUNK_SIZE_XZ * CHUNK_SIZE_XZ * chunk_size_y s"
    by (auto simp: storage_inv_def split: option.splits)
  from get_index_range [OF assms(2) tv] buf False show ?thesis
    by (simp add: get_voxel_def read_cell_def)
qed

lemma set_voxel_out_of_bounds: "\<not> in_bounds s x y z \<Longrightarrow> set_voxel s x y z t = Some s"
  by (simp add: set_voxel_def in_bounds_def)

lemma set_voxel_same_uniform:
  "is_uniform s \<Longrightarrow> set_voxel s x y z (uniform_value s) = Some s"
  by (simp add: set_voxel_def)

lemma set_voxel_promote:
  assumes "storage_inv s" "in_bounds s x y z" "is_uniform s" "t \<noteq> uniform_value s"
  shows "set_voxel s x y z t =
     Some (s\<lparr> data := Some ((replicate (nat (total_voxels s)) (uniform_value s))
                               [nat (get_index s x y z) := t]),
              is_uniform := False \<rparr>)"
proof -
  have tv: "total_voxels s = CHUNK_SIZE_XZ * CHUNK_SIZE_XZ * chunk_size_y s"
    using assms(1) by (simp add: storage_inv_def)
  have "0 \<le> get_index s x y z \<and> get_index s x y z < total_voxels s"
    by (rule get_index_range [OF assms(2) tv])
  then show ?thesis
    using assms(2-4) by (simp add: set_voxel_def in_bounds_def get_index_def Let_def)
qed

lemma set_voxel_dense:
  assumes "storage_inv s" "in_bounds s x y z" "\<not> is_uniform s" "data s = Some buf"
  shows "set_voxel s x y z t = Some (s\<lparr> data := Some (buf[nat (get_index s x y z) := t]) \<rparr>)"
proof -
  have tv: "total_voxels s = CHUNK_SIZE_XZ * CHUNK_SIZE_XZ * chunk_size_y s"
    and len: "int (length buf) = total_voxels s"
    using assms(1,4) by (simp_all add: storage_inv_def)
  have "0 \<le> get_index s x y z \<and> get_index s x y z < total_voxels s"
    by (rule get_index_range [OF assms(2) tv])
  then show ?thesis
    using assms(2-4) len by (simp add: set_voxel_def in_bounds_def Let_def)
qed

text \<open>What a write inside the chunk does, in terms of reads.\<close>

lemma set_voxel_in_bounds:
  assumes "storage_inv s" "in_bounds s x y z"
  shows "\<exists>s'. set_voxel s x y z t = Some s' \<and> storage_inv s' \<and> chunk_size_y s' = chunk_size_y s \<and>
           get_voxel s' x y z = Some t \<and>
           (\<forall>x' y' z'. in_bounds s x' y' z' \<and> (x', y', z') \<noteq> (x, y, z) \<longrightarrow>
               get_voxel s' x' y' z' = get_voxel s x' y' z')"
proof -
  have tv: "total_voxels s = CHUNK_SIZE_XZ * CHUNK_SIZE_XZ * chunk_size_y s"
    using assms(1) by (simp add: storage_inv_def)
  have rng: "0 \<le> get_index s x y z" "get_index s x y z < total_voxels s"
    using get_index_range [OF assms(2) tv] by simp_all
  have csy: "0 < chunk_size_y s" using assms(2) by (simp add: in_bounds_def)
  have other: "nat (get_index s x' y' z') \<noteq> nat (get_index s x y z)"
    if "in_bounds s x' y' z'" "(x', y', z') \<noteq> (x, y, z)" for x' y' z'
  proof
    assume "nat (get_index s x' y' z') = nat (get_index s x y z)"
    moreover have "0 \<le> get_index s x' y' z'" using get_index_range [OF that(1) tv] by simp
    ultimately have "get_index s x' y' z' = get_index s x y z" using rng(1) by simp
    from get_index_inj [OF that(1) assms(2) this] that(2) show False by simp
  qed
  have rng': "0 \<le> get_index s x' y' z'" "get_index s x' y' z' < total_voxels s"
    if "in_bounds s x' y' z'" for x' y' z'
    using get_index_range [OF that tv] by simp_all
  show ?thesis
  proof (cases "is_uniform s")
    case True
    note u = this
    show ?thesis
    proof (cases "t = uniform_value s")
      case True
      with u assms(1) show ?thesis
        by (simp add: set_voxel_same_uniform get_voxel_def)
    next
      case False
      define s' where "s' = s\<lparr> data := Some ((replicate (nat (total_voxels s)) (uniform_value s))
                               [nat (get_index s x y z) := t]), is_uniform := False \<rparr>"
      have 1: "set_voxel s x y z t = Some s'"
        unfolding s'_def by (rule set_voxel_promote [OF assms u False])
      have 2: "storage_inv s'" using assms(1) rng csy by (simp add: s'_def storage_inv_def)
      have 3: "get_voxel s' x y z = Some t"
        using rng by (simp add: s'_def get_voxel_def read_cell_def get_index_def)
      have 4: "get_voxel s' x' y' z' = get_voxel s x' y' z'"
        if "in_bounds s x' y' z'" "(x', y', z') \<noteq> (x, y, z)" for x' y' z'
        using other [OF that] rng' [OF that(1)] u
        by (simp add: s'_def get_voxel_def read_cell_def get_index_def)
      from 1 2 3 4 show ?thesis by (auto simp: s'_def)
    qed
  next
    case False
    with assms(1) obtain buf where buf: "data s = Some buf" "int (length buf) = total_voxels s"
      by (auto simp: storage_inv_def split: option.splits)
    define s' where "s' = s\<lparr> data := Some (buf[nat (get_index s x y z) := t]) \<rparr>"
    have 1: "set_voxel s x y z t = Some s'"
      unfolding s'_def by (rule set_voxel_dense [OF assms False buf(1)])
    have 2: "storage_inv s'" using assms(1) buf False by (simp add: s'_def storage_inv_def)
    have 3: "get_voxel s' x y z = Some t"
      using rng buf False by (simp add: s'_def get_voxel_def read_cell_def get_index_def)
    have 4: "get_voxel s' x' y' z' = get_voxel s x' y' z'"
      if "in_bounds s x' y' z'" "(x', y', z') \<noteq> (x, y, z)" for x' y' z'
      using other [OF that] rng' [OF that(1)] buf False
      by (simp add: s'_def get_voxel_def read_cell_def get_index_def)
    from 1 2 3 4 show ?thesis by (auto simp: s'_def)
  qed
qed

lemma scan_uniform_complete:
  assumes "int (length buf) = n" "0 \<le> i"
  shows "scan_uniform buf v i n = Some (\<forall>j. i \<le> j \<and> j < n \<longrightarrow> buf ! nat j = v)"
  using assms
proof (induction buf v i n rule: scan_uniform.induct)
  case (1 buf v i n)
  show ?case
  proof (cases "i < n")
    case False
    then show ?thesis by (subst scan_uniform.simps) auto
  next
    case True
    note lt = this
    show ?thesis
    proof (cases "buf ! nat i = v")
      case False
      with lt 1(2,3) show ?thesis
        by (subst scan_uniform.simps) auto
    next
      case True
      have ih: "scan_uniform buf v (i + 1) n = Some (\<forall>j. i + 1 \<le> j \<and> j < n \<longrightarrow> buf ! nat j = v)"
        using 1(1) lt True 1(2,3) by simp
      have "(\<forall>j. i + 1 \<le> j \<and> j < n \<longrightarrow> buf ! nat j = v) = (\<forall>j. i \<le> j \<and> j < n \<longrightarrow> buf ! nat j = v)"
      proof -
        have "i \<le> j \<longleftrightarrow> j = i \<or> i + 1 \<le> j" for j by linarith
        with True show ?thesis by auto
      qed
      with ih lt True 1(2,3) show ?thesis
        by (subst scan_uniform.simps) simp
    qed
  qed
qed


lemma set_voxel_inv:
  assumes "storage_inv s"
  shows "\<exists>s'. set_voxel s x y z t = Some s' \<and> storage_inv s'"
proof (cases "in_bounds s x y z")
  case True
  from set_voxel_in_bounds [OF assms True, of t] show ?thesis by blast
next
  case False
  with assms show ?thesis by (simp add: set_voxel_out_of_bounds)
qed

lemma set_voxels_inv: "storage_inv s \<Longrightarrow> \<exists>s'. set_voxels s ws = Some s' \<and> storage_inv s'"
proof (induction ws arbitrary: s)
  case Nil
  then show ?case by simp
next
  case (Cons w ws)
  obtain x y z t where w: "w = (x, y, z, t)" by (cases w) auto
  from set_voxel_inv [OF Cons.prems, of x y z t]
  obtain s1 where s1: "set_voxel s x y z t = Some s1" "storage_inv s1" by blast
  from Cons.IH [OF s1(2)] s1(1) w show ?case by simp
qed

lemma dense_cells_equal:
  assumes "storage_inv s" "\<not> is_uniform s" "data s = Some buf"
  shows "(\<forall>x y z. in_bounds s x y z \<longrightarrow> get_voxel s x y z = Some v) \<longleftrightarrow>
         (\<forall>j. 0 \<le> j \<and> j < total_voxels s \<longrightarrow> buf ! nat j = v)"
proof -
  have tv: "total_voxels s = CHUNK_SIZE_XZ * CHUNK_SIZE_XZ * chunk_size_y s"
    and len: "int (length buf) = total_voxels s"
    using assms by (simp_all add: storage_inv_def)
  show ?thesis
  proof
    assume a: "\<forall>x y z. in_bounds s x y z \<longrightarrow> get_voxel s x y z = Some v"
    show "\<forall>j. 0 \<le> j \<and> j < total_voxels s \<longrightarrow> buf ! nat j = v"
    proof (intro allI impI)
      fix j assume j: "0 \<le> j \<and> j < total_voxels s"
      then obtain x y z where p: "in_bounds s x y z" "get_index s x y z = j"
        using get_index_surj [of j s] tv by blast
      from a p(1) have "get_voxel s x y z = Some v" by blast
      with p(2) j len assms(2,3) show "buf ! nat j = v"
        by (simp add: get_voxel_def read_cell_def)
    qed
  next
    assume a: "\<forall>j. 0 \<le> j \<and> j < total_voxels s \<longrightarrow> buf ! nat j = v"
    show "\<forall>x y z. in_bounds s x y z \<longrightarrow> get_voxel s x y z = Some v"
    proof (intro allI impI)
      fix x y z assume p: "in_bounds s x y z"
      from get_index_range [OF p tv] a len assms(2,3) show "get_voxel s x y z = Some v"
        by (simp add: get_voxel_def read_cell_def)
    qed
  qed
qed

lemma check_uniform_state:
  assumes "storage_inv s"
  shows "\<exists>r s'. check_and_optimize_uniform s = Some (r, s') \<and>
      (r \<longleftrightarrow> (\<exists>v. \<forall>x y z. in_bounds s x y z \<longrightarrow> get_voxel s x y z = Some v)) \<and>
      (r \<longrightarrow> is_uniform s' \<and> data s' = None) \<and>
      (\<not> r \<longrightarrow> s' = s) \<and>
      (is_uniform s' \<longleftrightarrow> r) \<and>
      (\<forall>x y z. in_bounds s x y z \<longrightarrow> get_voxel s' x y z = get_voxel s x y z)"
proof (cases "is_uniform s")
  case True
  with assms have "data s = None" by (auto simp: storage_inv_def split: option.splits)
  with True show ?thesis
    by (auto simp: check_and_optimize_uniform_def get_voxel_def)
next
  case False
  with assms obtain buf where buf: "data s = Some buf" "int (length buf) = total_voxels s"
    and csy: "0 < chunk_size_y s"
    and tv: "total_voxels s = CHUNK_SIZE_XZ * CHUNK_SIZE_XZ * chunk_size_y s"
    by (auto simp: storage_inv_def split: option.splits)
  have pos: "0 < total_voxels s" using csy tv by (simp add: CHUNK_SIZE_XZ_def)
  define f where "f = buf ! 0"
  have rd: "read_cell (Some buf) 0 = Some f" using buf(2) pos by (simp add: read_cell_def f_def)
  define b where "b \<longleftrightarrow> (\<forall>j. 1 \<le> j \<and> j < total_voxels s \<longrightarrow> buf ! nat j = f)"
  have sc: "scan_uniform buf f 1 (total_voxels s) = Some b"
    unfolding b_def by (rule scan_uniform_complete [OF buf(2)]) simp
  have b_all: "b \<longleftrightarrow> (\<forall>j. 0 \<le> j \<and> j < total_voxels s \<longrightarrow> buf ! nat j = f)"
  proof -
    have "0 \<le> j \<longleftrightarrow> j = 0 \<or> 1 \<le> j" for j :: int by linarith
    then show ?thesis unfolding b_def using f_def by auto
  qed
  have b_cells: "b \<longleftrightarrow> (\<exists>v. \<forall>x y z. in_bounds s x y z \<longrightarrow> get_voxel s x y z = Some v)"
  proof
    assume b
    with b_all dense_cells_equal [OF assms False buf(1), of f] show
      "\<exists>v. \<forall>x y z. in_bounds s x y z \<longrightarrow> get_voxel s x y z = Some v" by blast
  next
    assume "\<exists>v. \<forall>x y z. in_bounds s x y z \<longrightarrow> get_voxel s x y z = Some v"
    then obtain v where v: "\<forall>x y z. in_bounds s x y z \<longrightarrow> get_voxel s x y z = Some v" by blast
    with dense_cells_equal [OF assms False buf(1), of v]
    have all: "\<forall>j. 0 \<le> j \<and> j < total_voxels s \<longrightarrow> buf ! nat j = v" by blast
    from all pos have "buf ! nat 0 = v" by (elim allE [of _ 0]) simp
    then have "f = v" by (simp add: f_def)
    with all b_all show b by simp
  qed
  show ?thesis
  proof (cases b)
    case False
    with sc have sc': "scan_uniform buf f 1 (total_voxels s) = Some False" by simp
    have 1: "check_and_optimize_uniform s = Some (False, s)"
      using sc' rd buf \<open>\<not> is_uniform s\<close> by (simp add: check_and_optimize_uniform_def)
    from False b_cells
    have 2: "\<not> (\<exists>v. \<forall>x y z. in_bounds s x y z \<longrightarrow> get_voxel s x y z = Some v)" by simp
    from 1 2 \<open>\<not> is_uniform s\<close> show ?thesis by auto
  next
    case True
    with sc have sc': "scan_uniform buf f 1 (total_voxels s) = Some True" by simp
    define s' where "s' = s\<lparr> uniform_value := f, is_uniform := True, data := None \<rparr>"
    have 1: "check_and_optimize_uniform s = Some (True, s')"
      using sc' rd buf \<open>\<not> is_uniform s\<close> by (simp add: check_and_optimize_uniform_def s'_def)
    have "\<forall>x y z. in_bounds s x y z \<longrightarrow> get_voxel s x y z = Some f"
      using True b_all dense_cells_equal [OF assms False buf(1), of f] by blast
    then have 2: "\<forall>x y z. in_bounds s x y z \<longrightarrow> get_voxel s' x y z = get_voxel s x y z"
      by (simp add: s'_def get_voxel_def)
    from 1 2 True b_cells show ?thesis by (auto simp: s'_def)
  qed
qed

lemma check_and_optimize_uniform_inv:
  assumes "storage_inv s" "check_and_optimize_uniform s = Some (r, s')"
  shows "storage_inv s' \<and> chunk_size_y s' = chunk_size_y s"
  using assms
  by (auto simp: check_and_optimize_uniform_def storage_inv_def
      split: if_splits option.splits bool.splits)

lemma set_voxel_chunk_size_y: "set_voxel s x y z t = Some s' \<Longrightarrow> chunk_size_y s' = chunk_size_y s"
  by (auto simp: set_voxel_def Let_def split: if_splits option.splits)

lemma set_voxels_chunk_size_y: "set_voxels s ws = Some s' \<Longrightarrow> chunk_size_y s' = chunk_size_y s"
proof (induction ws arbitrary: s)
  case Nil
  then show ?case by simp
next
  case (Cons w ws)
  obtain x y z t where w: "w = (x, y, z, t)" by (cases w) auto
  from Cons.prems w obtain s1 where s1: "set_voxel s x y z t = Some s1" "set_voxels s1 ws = Some s'"
    by (auto split: option.splits)
  from Cons.IH [OF s1(2)] set_voxel_chunk_size_y [OF s1(1)] show ?case by simp
qed

subsection \<open>Claims about the chunk storage\<close>

text \<open>
  C1 (as amended). For every coordinate outside the chunk bounds and every storage state,
  \<open>set_voxel\<close> leaves the storage completely unchanged, and the bounds-checked accessor
  \<open>_get_voxel\<close> (the method bound to scripts as \<open>get_voxel\<close>) returns air (0). The inline
  \<open>get_voxel\<close> has no bounds check: on a uniform storage it returns the uniform value at
  every coordinate.
\<close>

theorem out_of_bounds_access:
  assumes "\<not> in_bounds s x y z"
  shows "set_voxel s x y z t = Some s \<and>
         godot_get_voxel s x y z = Some 0 \<and>
         (is_uniform s \<longrightarrow> get_voxel s x y z = Some (uniform_value s))"
  using assms by (simp add: set_voxel_def godot_get_voxel_def in_bounds_def get_voxel_def AIR_def)

theorem out_of_bounds_access_witness:
  "\<not> in_bounds (fill (VoxelData_new 16) STONE) 16 0 0 \<and>
   set_voxel (fill (VoxelData_new 16) STONE) 16 0 0 DIRT = Some (fill (VoxelData_new 16) STONE) \<and>
   godot_get_voxel (fill (VoxelData_new 16) STONE) 16 0 0 = Some 0 \<and>
   get_voxel (fill (VoxelData_new 16) STONE) 16 0 0 = Some STONE"
proof -
  have h: "\<not> in_bounds (fill (VoxelData_new 16) STONE) 16 0 0"
    by (simp add: in_bounds_def fill_def VoxelData_new_def CHUNK_SIZE_XZ_def)
  show ?thesis
    using h out_of_bounds_access [OF h, of DIRT] by (simp add: fill_def)
qed

text \<open>
  C1 as stated fails for the inline \<open>get_voxel\<close>: after \<open>fill(STONE)\<close> the read at the
  out-of-bounds coordinate (16, 0, 0) returns stone, not air.
\<close>

theorem get_voxel_out_of_bounds_counterexample:
  "\<not> in_bounds (fill (VoxelData_new 16) STONE) 16 0 0 \<and>
   get_voxel (fill (VoxelData_new 16) STONE) 16 0 0 = Some STONE \<and>
   STONE \<noteq> AIR"
  by (simp add: in_bounds_def fill_def VoxelData_new_def CHUNK_SIZE_XZ_def get_voxel_def block_defs)

text \<open>
  C5. From any well-formed storage and after any sequence of \<open>set_voxel\<close> calls,
  \<open>check_and_optimize_uniform\<close> returns; it returns true exactly when every in-bounds cell
  holds one common value, and then the storage is uniform with no dense buffer; it returns
  false without changing the state otherwise; so \<open>is_uniform\<close> afterwards is true iff all
  in-bounds cells are equal; and every in-bounds read is the same after the call as before.
\<close>

theorem check_and_optimize_uniform_correct:
  assumes "storage_inv s0"
  shows "\<exists>s r s'. set_voxels s0 ws = Some s \<and> check_and_optimize_uniform s = Some (r, s') \<and>
      (r \<longleftrightarrow> (\<exists>v. \<forall>x y z. in_bounds s0 x y z \<longrightarrow> get_voxel s x y z = Some v)) \<and>
      (r \<longrightarrow> is_uniform s' \<and> data s' = None) \<and>
      (\<not> r \<longrightarrow> s' = s) \<and>
      (is_uniform s' \<longleftrightarrow> r) \<and>
      (\<forall>x y z. in_bounds s0 x y z \<longrightarrow> get_voxel s' x y z = get_voxel s x y z)"
proof -
  from set_voxels_inv [OF assms, of ws]
  obtain s where s: "set_voxels s0 ws = Some s" "storage_inv s" by blast
  have "in_bounds s = in_bounds s0"
    using set_voxels_chunk_size_y [OF s(1)] by (simp add: in_bounds_def fun_eq_iff)
  with check_uniform_state [OF s(2)] s(1) show ?thesis by auto
qed

theorem check_and_optimize_uniform_correct_witness:
  "storage_inv (VoxelData_new 1) \<and>
   (\<exists>s r s'. set_voxels (VoxelData_new 1) [(0, 0, 0, STONE)] = Some s \<and>
      check_and_optimize_uniform s = Some (r, s') \<and>
      get_voxel s' 0 0 0 = get_voxel s 0 0 0)"
proof -
  have h: "storage_inv (VoxelData_new 1)"
    by (simp add: storage_inv_def VoxelData_new_def CHUNK_SIZE_XZ_def)
  have b: "in_bounds (VoxelData_new 1) 0 0 0"
    by (simp add: in_bounds_def VoxelData_new_def CHUNK_SIZE_XZ_def)
  from check_and_optimize_uniform_correct [OF h, of "[(0, 0, 0, STONE)]"] b h
  show ?thesis by blast
qed

text \<open>
  C6. On a uniform storage with value \<open>A\<close> and an in-bounds coordinate, writing \<open>A\<close>
  changes nothing (no buffer is allocated); writing \<open>B \<noteq> A\<close> allocates the dense buffer
  with \<open>A\<close> in every cell and then applies the write, so that the written cell reads
  \<open>B\<close> and every other in-bounds cell reads \<open>A\<close>.
\<close>

theorem set_voxel_promotion:
  assumes "storage_inv s" "is_uniform s" "uniform_value s = A" "in_bounds s x y z"
  shows "set_voxel s x y z A = Some s \<and> data s = None \<and>
         (B \<noteq> A \<longrightarrow>
            (\<exists>s'. set_voxel s x y z B = Some s' \<and> \<not> is_uniform s' \<and>
               data s' = Some ((replicate (nat (total_voxels s)) A)[nat (get_index s x y z) := B]) \<and>
               get_voxel s' x y z = Some B \<and>
               (\<forall>x' y' z'. in_bounds s x' y' z' \<and> (x', y', z') \<noteq> (x, y, z) \<longrightarrow>
                   get_voxel s' x' y' z' = Some A)))"
proof -
  have 1: "set_voxel s x y z A = Some s"
    using assms(2,3) set_voxel_same_uniform [of s x y z] by simp
  have 2: "data s = None"
    using assms(1,2) by (auto simp: storage_inv_def split: option.splits)
  have 3: "\<exists>s'. set_voxel s x y z B = Some s' \<and> \<not> is_uniform s' \<and>
               data s' = Some ((replicate (nat (total_voxels s)) A)[nat (get_index s x y z) := B]) \<and>
               get_voxel s' x y z = Some B \<and>
               (\<forall>x' y' z'. in_bounds s x' y' z' \<and> (x', y', z') \<noteq> (x, y, z) \<longrightarrow>
                   get_voxel s' x' y' z' = Some A)" if "B \<noteq> A"
  proof -
    from that assms(3) have ne: "B \<noteq> uniform_value s" by simp
    from set_voxel_in_bounds [OF assms(1,4), of B]
    obtain s' where s': "set_voxel s x y z B = Some s'" "get_voxel s' x y z = Some B"
      "\<forall>x' y' z'. in_bounds s x' y' z' \<and> (x', y', z') \<noteq> (x, y, z) \<longrightarrow>
          get_voxel s' x' y' z' = get_voxel s x' y' z'" by blast
    have "get_voxel s x' y' z' = Some A" for x' y' z'
      using assms(2,3) by (simp add: get_voxel_def)
    with s'(3) have 4: "\<forall>x' y' z'. in_bounds s x' y' z' \<and> (x', y', z') \<noteq> (x, y, z) \<longrightarrow>
          get_voxel s' x' y' z' = Some A" by simp
    from s'(1) set_voxel_promote [OF assms(1,4,2) ne] assms(3)
    have 5: "\<not> is_uniform s'"
      "data s' = Some ((replicate (nat (total_voxels s)) A)[nat (get_index s x y z) := B])"
      by auto
    from s'(1,2) 4 5 show ?thesis by blast
  qed
  from 1 2 3 show ?thesis by blast
qed

theorem set_voxel_promotion_witness:
  "storage_inv (fill (VoxelData_new 16) STONE) \<and> in_bounds (fill (VoxelData_new 16) STONE) 1 2 3 \<and>
   set_voxel (fill (VoxelData_new 16) STONE) 1 2 3 STONE = Some (fill (VoxelData_new 16) STONE) \<and>
   (\<exists>s'. set_voxel (fill (VoxelData_new 16) STONE) 1 2 3 DIRT = Some s' \<and>
      \<not> is_uniform s' \<and> get_voxel s' 1 2 3 = Some DIRT \<and> get_voxel s' 0 0 0 = Some STONE)"
proof -
  let ?s = "fill (VoxelData_new 16) STONE"
  have w: "storage_inv ?s" by (simp add: storage_inv_def fill_def VoxelData_new_def CHUNK_SIZE_XZ_def)
  have u: "is_uniform ?s" "uniform_value ?s = STONE" by (simp_all add: fill_def)
  have b: "in_bounds ?s 1 2 3" "in_bounds ?s 0 0 0"
    by (simp_all add: in_bounds_def fill_def VoxelData_new_def CHUNK_SIZE_XZ_def)
  have ne: "DIRT \<noteq> STONE" by (simp add: block_defs)
  have q: "((0::int), (0::int), (0::int)) \<noteq> (1, 2, 3)" by simp
  from set_voxel_promotion [OF w u b(1), of DIRT] ne b(2) q w b(1)
  show ?thesis by blast
qed

section \<open>Properties of the job scheduler\<close>

lemma sint_succ_below:
  fixes a b :: "32 word"
  assumes "a <s b"
  shows "sint (a + 1) = sint a + 1"
proof -
  have "sint a < sint b" using assms by (simp add: word_sless_alt)
  moreover have "sint b < 2 ^ 31" using sint_lt [of b] by simp
  moreover have "- (2 ^ 31) \<le> sint a" using sint_ge [of a] by simp
  ultimately have r: "- (2 ^ 31) \<le> sint a + 1" "sint a + 1 < 2 ^ 31" by simp_all
  have "sint (a + 1) = signed_take_bit 31 (sint a + 1)"
    by (simp add: sint_word_ariths)
  also have "\<dots> = sint a + 1"
    using r by (simp add: signed_take_bit_int_eq_self)
  finally show ?thesis .
qed

text \<open>
  C7. \<open>submit_job\<close> returns false and leaves the pool as it is (queue, pending counter
  and semaphore included, and the mutex never locked, so the call has not blocked) whenever
  the stop flag is set or the pending count has reached \<open>max_pending_jobs\<close>, whose default
  is 1000; otherwise it puts the job in the queue, increments the pending counter by one
  (without overflow) and returns true.
\<close>

theorem submit_job_backpressure:
  "(should_stop p \<or> max_pending_jobs p \<le>s pending_jobs p \<longrightarrow>
      submit_job p ty fn prio = (False, p)) \<and>
   (\<not> should_stop p \<and> pending_jobs p <s max_pending_jobs p \<longrightarrow>
      submit_job p ty fn prio =
        (True, p\<lparr> queue_mutex := queue_mutex p + 1,
                  job_queue := add_mset \<lparr> job_type = ty, task = fn, priority = prio \<rparr> (job_queue p),
                  pending_jobs := pending_jobs p + 1,
                  queue_semaphore := queue_semaphore p + 1 \<rparr>) \<and>
      sint (pending_jobs p + 1) = sint (pending_jobs p) + 1) \<and>
   max_pending_jobs (ThreadPool_new :: 'task ThreadPool) = 1000"
proof -
  have 1: "submit_job p ty fn prio = (False, p)"
    if "should_stop p \<or> max_pending_jobs p \<le>s pending_jobs p"
    using that by (auto simp: submit_job_def)
  have 2: "submit_job p ty fn prio =
        (True, p\<lparr> queue_mutex := queue_mutex p + 1,
                  job_queue := add_mset \<lparr> job_type = ty, task = fn, priority = prio \<rparr> (job_queue p),
                  pending_jobs := pending_jobs p + 1,
                  queue_semaphore := queue_semaphore p + 1 \<rparr>)"
    if "\<not> should_stop p" "pending_jobs p <s max_pending_jobs p"
  proof -
    from that(2) have "\<not> max_pending_jobs p \<le>s pending_jobs p"
      by (simp add: word_sless_alt word_sle_eq)
    with that(1) show ?thesis by (simp add: submit_job_def)
  qed
  have 3: "max_pending_jobs (ThreadPool_new :: 'task ThreadPool) = 1000"
    by (simp add: ThreadPool_new_def)
  from 1 2 3 sint_succ_below show ?thesis by blast
qed

theorem submit_job_backpressure_witness:
  "submit_job (ThreadPool_new :: nat ThreadPool) GENERATE_TERRAIN 7 0 =
     (True, (ThreadPool_new :: nat ThreadPool)
        \<lparr> queue_mutex := 1,
          job_queue := {# \<lparr> job_type = GENERATE_TERRAIN, task = 7, priority = 0 \<rparr> #},
          pending_jobs := 1, queue_semaphore := 1 \<rparr>) \<and>
   submit_job (set_max_pending_jobs (ThreadPool_new :: nat ThreadPool) 0) GENERATE_TERRAIN 7 0 =
     (False, set_max_pending_jobs ThreadPool_new 0)"
proof -
  have a: "\<not> should_stop (ThreadPool_new :: nat ThreadPool) \<and>
           pending_jobs (ThreadPool_new :: nat ThreadPool) <s max_pending_jobs (ThreadPool_new :: nat ThreadPool)"
    by (simp add: ThreadPool_new_def word_sless_alt)
  have b: "max_pending_jobs (set_max_pending_jobs (ThreadPool_new :: nat ThreadPool) 0)
             \<le>s pending_jobs (set_max_pending_jobs (ThreadPool_new :: nat ThreadPool) 0)"
    by (simp add: ThreadPool_new_def set_max_pending_jobs_def)
  from submit_job_backpressure [of "ThreadPool_new :: nat ThreadPool" GENERATE_TERRAIN 7 0] a
  have 1: "submit_job (ThreadPool_new :: nat ThreadPool) GENERATE_TERRAIN 7 0 =
     (True, (ThreadPool_new :: nat ThreadPool)
        \<lparr> queue_mutex := 1,
          job_queue := {# \<lparr> job_type = GENERATE_TERRAIN, task = 7, priority = 0 \<rparr> #},
          pending_jobs := 1, queue_semaphore := 1 \<rparr>)"
    by (simp add: ThreadPool_new_def)
  from submit_job_backpressure
         [of "set_max_pending_jobs (ThreadPool_new :: nat ThreadPool) 0" GENERATE_TERRAIN 7 0] b
  have 2: "submit_job (set_max_pending_jobs (ThreadPool_new :: nat ThreadPool) 0) GENERATE_TERRAIN 7 0 =
     (False, set_max_pending_jobs ThreadPool_new 0)"
    by blast
  from 1 2 show ?thesis by simp
qed

section \<open>Properties of the world streamer\<close>

text \<open>
  C4 (as amended). When mesh installation runs with a null mesh, for a coordinate that is
  present in the chunk table or for any other, the call returns at its first guard and the
  world is returned as it was: no render handle is created or freed, neither table changes,
  and the chunk at the coordinate, its state included, is left as it was.
\<close>

theorem install_null_mesh_is_noop:
  "create_chunk_mesh_instance w pos None = Some w"
  by (simp add: create_chunk_mesh_instance_def)

theorem install_null_mesh_is_noop_witness:
  "chunks (insert_generating_chunk (VoxelWorld_new :: nat VoxelWorld) (0, 0, 0)) (0, 0, 0) =
     Some (set_state (initialize_chunk Chunk_new (0, 0, 0) 16) GENERATING) \<and>
   create_chunk_mesh_instance
     (insert_generating_chunk (VoxelWorld_new :: nat VoxelWorld) (0, 0, 0)) (0, 0, 0) None =
     Some (insert_generating_chunk VoxelWorld_new (0, 0, 0)) \<and>
   chunk_mesh_instances (insert_generating_chunk (VoxelWorld_new :: nat VoxelWorld) (0, 0, 0)) =
     Map.empty"
proof -
  have h: "chunks (insert_generating_chunk (VoxelWorld_new :: nat VoxelWorld) (0, 0, 0)) (0, 0, 0) =
     Some (set_state (initialize_chunk Chunk_new (0, 0, 0) 16) GENERATING)"
    by (simp add: insert_generating_chunk_def get_chunk_height_for_y_def DEEP_VOID_MAX_Y_def
        DENSE_TERRAIN_MAX_Y_def DENSE_TERRAIN_CHUNK_HEIGHT_def)
  have n: "chunk_mesh_instances (insert_generating_chunk (VoxelWorld_new :: nat VoxelWorld) (0, 0, 0)) =
     Map.empty"
    by (simp add: insert_generating_chunk_def VoxelWorld_new_def)
  from install_null_mesh_is_noop
    [of "insert_generating_chunk (VoxelWorld_new :: nat VoxelWorld) (0, 0, 0)" "(0, 0, 0)"] h n
  show ?thesis by simp
qed

text \<open>
  C4 as stated fails: a chunk that is in the table in state Generating is still in state
  Generating, not Active, after the installation of a null mesh.
\<close>

theorem install_null_mesh_counterexample:
  "map_option state
     (chunks (insert_generating_chunk (VoxelWorld_new :: nat VoxelWorld) (0, 0, 0)) (0, 0, 0)) =
     Some GENERATING \<and>
   map_option (\<lambda>w'. map_option state (chunks w' (0, 0, 0)))
     (create_chunk_mesh_instance (insert_generating_chunk (VoxelWorld_new :: nat VoxelWorld) (0, 0, 0))
        (0, 0, 0) None) = Some (Some GENERATING) \<and>
   GENERATING \<noteq> ACTIVE"
  by (simp add: create_chunk_mesh_instance_def insert_generating_chunk_def set_state_def)

text \<open>
  C8. If the coordinate is absent from the chunk table, mesh installation returns the world
  unchanged: no table entry, no render handle, both tables as they were.
\<close>

theorem install_absent_chunk_is_noop:
  assumes "chunks w pos = None"
  shows "create_chunk_mesh_instance w pos new_mesh = Some w"
  using assms by (simp add: create_chunk_mesh_instance_def split: option.splits)

theorem install_absent_chunk_is_noop_witness:
  "chunks (unload_chunk (insert_generating_chunk (VoxelWorld_new :: nat VoxelWorld) (1, 0, 2)) (1, 0, 2))
     (1, 0, 2) = None \<and>
   create_chunk_mesh_instance
     (unload_chunk (insert_generating_chunk (VoxelWorld_new :: nat VoxelWorld) (1, 0, 2)) (1, 0, 2))
     (1, 0, 2) (Some 5) =
     Some (unload_chunk (insert_generating_chunk VoxelWorld_new (1, 0, 2)) (1, 0, 2))"
proof -
  have h: "chunks (unload_chunk (insert_generating_chunk (VoxelWorld_new :: nat VoxelWorld) (1, 0, 2))
             (1, 0, 2)) (1, 0, 2) = None"
    by (simp add: unload_chunk_def remove_chunk_mesh_instance_def insert_generating_chunk_def
        VoxelWorld_new_def Let_def)
  from install_absent_chunk_is_noop [OF h, of "Some 5"] h show ?thesis by simp
qed

text \<open>
  What \<open>get_voxel_at\<close> does when the table has no entry at the coordinate that
  \<open>world_to_chunk_pos\<close> computes: it returns air. It is a function of the world and returns
  no new world, so it creates and changes nothing.
\<close>

lemma get_voxel_at_absent_key:
  assumes "chunks w (world_to_chunk_pos world_pos) = None"
  shows "get_voxel_at w world_pos = Some AIR"
  using assms by (simp add: get_voxel_at_def get_chunk_at_def)

lemma world_to_chunk_pos_below_zero: "world_to_chunk_pos (0, - 5, 0) = (0, 0, 0)"
  by (simp add: world_to_chunk_pos_def CHUNK_SIZE_XZ_def world_y_to_chunk_y_def float_to_int_def
      get_chunk_height_for_y_def DEEP_VOID_MAX_Y_def DENSE_TERRAIN_MAX_Y_def
      DENSE_TERRAIN_CHUNK_HEIGHT_def signed_divide_int_def round_f32_small)

text \<open>
  C10. The claim fails for a position just below a loaded chunk. The position
  \<open>(0, -5, 0)\<close> lies in the part of world space of the chunk \<open>(0, -1, 0)\<close>, which spans the
  heights from \<open>-16\<close> up to \<open>0\<close> and is not in the table; the only chunk in the table is
  \<open>(0, 0, 0)\<close>, filled with stone, which spans the heights from \<open>0\<close> up to \<open>16\<close>.
  \<open>world_to_chunk_pos\<close> rounds \<open>x\<close> and \<open>z\<close> down but divides \<open>y\<close> towards zero, so it
  computes the coordinate \<open>(0, 0, 0)\<close>; \<open>get_voxel_at\<close> then reads that chunk at the local
  height \<open>-5 % 16 = -5\<close> and returns stone, not air. Once the chunk is dense (here after
  one cell is set to dirt) the same call reads \<open>data[-80]\<close>, outside the buffer.
\<close>

theorem get_voxel_at_reads_other_chunk:
  "(let c = (initialize_chunk (Chunk_new :: nat Chunk) (0, 0, 0) 16)
              \<lparr> voxel_data := Some (fill (VoxelData_new 16) STONE) \<rparr>;
        w = (VoxelWorld_new :: nat VoxelWorld)\<lparr> chunks := [(0, 0, 0) \<mapsto> c] \<rparr>;
        world_pos = (0, - 5, 0)
    in dom (chunks w) = {(0, 0, 0)} \<and>
       chunk_contains (0, - 1, 0) (get_chunk_height_for_y (- 1)) world_pos \<and>
       chunks w (0, - 1, 0) = None \<and>
       \<not> chunk_contains (0, 0, 0) 16 world_pos \<and>
       world_to_chunk_pos world_pos = (0, 0, 0) \<and>
       get_voxel_at w world_pos = Some STONE \<and>
       STONE \<noteq> AIR \<and>
       map_option
         (\<lambda>vd. get_voxel_at (w\<lparr> chunks := [(0, 0, 0) \<mapsto> c\<lparr> voxel_data := Some vd \<rparr>] \<rparr>)
                 world_pos)
         (set_voxel (fill (VoxelData_new 16) STONE) 0 0 0 DIRT) = Some None)"
proof -
  have 1: "chunk_contains (0, - 1, 0) (get_chunk_height_for_y (- 1)) (0, - 5, 0)"
    by (simp add: chunk_contains_def get_chunk_height_for_y_def DEEP_VOID_MAX_Y_def
        DENSE_TERRAIN_MAX_Y_def DENSE_TERRAIN_CHUNK_HEIGHT_def CHUNK_SIZE_XZ_def)
  have 2: "\<not> chunk_contains (0, 0, 0) 16 (0, - 5, 0)"
    by (simp add: chunk_contains_def)
  have 3: "get_voxel_at
             ((VoxelWorld_new :: nat VoxelWorld)
                \<lparr> chunks := [(0, 0, 0) \<mapsto> (initialize_chunk (Chunk_new :: nat Chunk) (0, 0, 0) 16)
                                           \<lparr> voxel_data := Some (fill (VoxelData_new 16) STONE) \<rparr>] \<rparr>)
             (0, - 5, 0) = Some STONE"
    by (simp add: get_voxel_at_def get_chunk_at_def world_to_chunk_pos_below_zero
        chunk_get_voxel_def get_voxel_def fill_def VoxelData_new_def Let_def)
  have 4: "STONE \<noteq> AIR" by (simp add: block_defs)
  have 5: "map_option
         (\<lambda>vd. get_voxel_at
                 ((VoxelWorld_new :: nat VoxelWorld)
                    \<lparr> chunks := [(0, 0, 0) \<mapsto>
                         (initialize_chunk (Chunk_new :: nat Chunk) (0, 0, 0) 16)
                           \<lparr> voxel_data := Some vd \<rparr>] \<rparr>)
                 (0, - 5, 0))
         (set_voxel (fill (VoxelData_new 16) STONE) 0 0 0 DIRT) = Some None"
    by (simp add: set_voxel_def fill_def VoxelData_new_def CHUNK_SIZE_XZ_def get_index_def
        block_defs Let_def get_voxel_at_def get_chunk_at_def world_to_chunk_pos_below_zero
        chunk_get_voxel_def get_voxel_def read_cell_def float_to_int_def signed_modulo_int_def)
  from 1 2 3 4 5 show ?thesis
    by (simp add: Let_def world_to_chunk_pos_below_zero)
qed

section \<open>Properties of the terrain generator\<close>

lemma fold_option_append:
  "fold_option f (xs @ ys) s =
     (case fold_option f xs s of None \<Rightarrow> None | Some s' \<Rightarrow> fold_option f ys s')"
  by (induction xs arbitrary: s) (auto split: option.splits)

lemma fold_option_map_Pair:
  "fold_option (\<lambda>c. case c of (z, x) \<Rightarrow> f z x) (map (Pair z) xs) s = fold_option (f z) xs s"
  by (induction xs arbitrary: s) (auto split: option.splits)

lemma fold_option_product:
  "fold_option (\<lambda>z. fold_option (f z) xs) zs s =
   fold_option (\<lambda>c. case c of (z, x) \<Rightarrow> f z x) (List.product zs xs) s"
proof (induction zs arbitrary: s)
  case Nil
  then show ?case by simp
next
  case (Cons z zs)
  show ?case
    by (simp add: fold_option_append fold_option_map_Pair Cons.IH split: option.splits)
qed

lemma generate_voxels_columns:
  "generate_voxels noise cs yb xb zb st = generate_columns noise cs yb xb zb all_columns st"
  by (simp add: generate_voxels_def generate_columns_def all_columns_def fold_option_product)

lemma get_height_at_params: "params (snd (get_height_at noise g wx wz)) = params g"
  by (simp add: get_height_at_def Let_def split: option.splits)

lemma get_surface_block_not_AIR: "get_surface_block p h n \<noteq> AIR"
  by (simp add: get_surface_block_def block_defs)

lemma in_bounds_cong: "chunk_size_y s' = chunk_size_y s \<Longrightarrow> in_bounds s' = in_bounds s"
  by (simp add: in_bounds_def fun_eq_iff)

lemma generate_cell_step:
  assumes "storage_inv vd" "in_bounds vd x y z"
  shows "\<exists>vd'. generate_cell p h n yb x z y vd = Some vd' \<and> storage_inv vd' \<and>
           chunk_size_y vd' = chunk_size_y vd \<and>
           (\<forall>x' y' z'. in_bounds vd x' y' z' \<longrightarrow>
              get_voxel vd' x' y' z' =
                (if (x', y', z') = (x, y, z) \<and> classify_voxel p h n (yb + y) \<noteq> AIR
                 then Some (classify_voxel p h n (yb + y))
                 else get_voxel vd x' y' z'))"
proof (cases "classify_voxel p h n (yb + y) = AIR")
  case True
  with assms(1) show ?thesis by (simp add: generate_cell_def)
next
  case False
  from set_voxel_in_bounds [OF assms, of "classify_voxel p h n (yb + y)"]
  obtain vd' where vd': "set_voxel vd x y z (classify_voxel p h n (yb + y)) = Some vd'" "storage_inv vd'"
    "chunk_size_y vd' = chunk_size_y vd"
    "get_voxel vd' x y z = Some (classify_voxel p h n (yb + y))"
    "\<forall>x' y' z'. in_bounds vd x' y' z' \<and> (x', y', z') \<noteq> (x, y, z) \<longrightarrow>
        get_voxel vd' x' y' z' = get_voxel vd x' y' z'" by blast
  have "generate_cell p h n yb x z y vd = Some vd'"
    using False vd'(1) by (simp add: generate_cell_def)
  with vd'(2-5) False show ?thesis by auto
qed

lemma generate_cells:
  assumes "storage_inv vd" "0 \<le> x" "x < 16" "0 \<le> z" "z < 16"
    "\<forall>y\<in>set ys. 0 \<le> y \<and> y < chunk_size_y vd"
  shows "\<exists>vd'. fold_option (generate_cell p h n yb x z) ys vd = Some vd' \<and> storage_inv vd' \<and>
           chunk_size_y vd' = chunk_size_y vd \<and>
           (\<forall>x' y' z'. in_bounds vd x' y' z' \<longrightarrow>
              get_voxel vd' x' y' z' =
                (if x' = x \<and> z' = z \<and> y' \<in> set ys \<and> classify_voxel p h n (yb + y') \<noteq> AIR
                 then Some (classify_voxel p h n (yb + y'))
                 else get_voxel vd x' y' z'))"
  using assms
proof (induction ys arbitrary: vd)
  case Nil
  then show ?case by simp
next
  case (Cons y ys)
  have b: "in_bounds vd x y z"
    using Cons.prems by (simp add: in_bounds_def CHUNK_SIZE_XZ_def)
  from generate_cell_step [OF Cons.prems(1) b, of p h n yb]
  obtain vd1 where vd1: "generate_cell p h n yb x z y vd = Some vd1" "storage_inv vd1"
    "chunk_size_y vd1 = chunk_size_y vd"
    "\<forall>x' y' z'. in_bounds vd x' y' z' \<longrightarrow>
              get_voxel vd1 x' y' z' =
                (if (x', y', z') = (x, y, z) \<and> classify_voxel p h n (yb + y) \<noteq> AIR
                 then Some (classify_voxel p h n (yb + y))
                 else get_voxel vd x' y' z')" by blast
  have ys: "\<forall>y\<in>set ys. 0 \<le> y \<and> y < chunk_size_y vd1"
    using Cons.prems(6) vd1(3) by simp
  from Cons.IH [OF vd1(2) Cons.prems(2-5) ys]
  obtain vd' where vd': "fold_option (generate_cell p h n yb x z) ys vd1 = Some vd'" "storage_inv vd'"
    "chunk_size_y vd' = chunk_size_y vd1"
    "\<forall>x' y' z'. in_bounds vd1 x' y' z' \<longrightarrow>
              get_voxel vd' x' y' z' =
                (if x' = x \<and> z' = z \<and> y' \<in> set ys \<and> classify_voxel p h n (yb + y') \<noteq> AIR
                 then Some (classify_voxel p h n (yb + y'))
                 else get_voxel vd1 x' y' z')" by blast
  have ib: "in_bounds vd1 = in_bounds vd" by (rule in_bounds_cong [OF vd1(3)])
  have 1: "fold_option (generate_cell p h n yb x z) (y # ys) vd = Some vd'"
    using vd1(1) vd'(1) by simp
  have 2: "chunk_size_y vd' = chunk_size_y vd" using vd1(3) vd'(3) by simp
  have 3: "get_voxel vd' x' y' z' =
                (if x' = x \<and> z' = z \<and> y' \<in> set (y # ys) \<and> classify_voxel p h n (yb + y') \<noteq> AIR
                 then Some (classify_voxel p h n (yb + y'))
                 else get_voxel vd x' y' z')" if "in_bounds vd x' y' z'" for x' y' z'
    using vd'(4) [rule_format, of x' y' z'] vd1(4) [rule_format, of x' y' z'] that ib
    by auto
  from 1 2 3 vd'(2) show ?case by blast
qed

lemma generate_column_cells:
  assumes "storage_inv vd" "0 \<le> x" "x < 16" "0 \<le> z" "z < 16" "cs = chunk_size_y vd"
  shows "\<exists>vd'. generate_column noise cs yb xb zb z x (g, vd) =
                  Some (snd (get_height_at noise g (xb + x) (zb + z)), vd') \<and>
           storage_inv vd' \<and> chunk_size_y vd' = chunk_size_y vd \<and>
           (\<forall>x' y' z'. in_bounds vd x' y' z' \<longrightarrow>
              get_voxel vd' x' y' z' =
                (let t = classify_voxel (params g) (fst (get_height_at noise g (xb + x) (zb + z)))
                           (noise (xb + x) (zb + z)) (yb + y')
                 in if x' = x \<and> z' = z \<and> t \<noteq> AIR then Some t else get_voxel vd x' y' z'))"
proof -
  define h where "h = fst (get_height_at noise g (xb + x) (zb + z))"
  define g' where "g' = snd (get_height_at noise g (xb + x) (zb + z))"
  define n where "n = noise (xb + x) (zb + z)"
  have gh: "get_height_at noise g (xb + x) (zb + z) = (h, g')" by (simp add: h_def g'_def)
  have ys: "\<forall>y\<in>set [0..cs - 1]. 0 \<le> y \<and> y < chunk_size_y vd" using assms(6) by simp
  from generate_cells [OF assms(1-5) ys, of "params g" h n yb]
  obtain vd' where vd': "fold_option (generate_cell (params g) h n yb x z) [0..cs - 1] vd = Some vd'"
    "storage_inv vd'" "chunk_size_y vd' = chunk_size_y vd"
    "\<forall>x' y' z'. in_bounds vd x' y' z' \<longrightarrow>
              get_voxel vd' x' y' z' =
                (if x' = x \<and> z' = z \<and> y' \<in> set [0..cs - 1] \<and>
                    classify_voxel (params g) h n (yb + y') \<noteq> AIR
                 then Some (classify_voxel (params g) h n (yb + y'))
                 else get_voxel vd x' y' z')" by blast
  have 1: "generate_column noise cs yb xb zb z x (g, vd) = Some (g', vd')"
    using gh vd'(1) by (simp add: generate_column_def Let_def n_def)
  have 2: "get_voxel vd' x' y' z' =
                (let t = classify_voxel (params g) h n (yb + y')
                 in if x' = x \<and> z' = z \<and> t \<noteq> AIR then Some t else get_voxel vd x' y' z')"
    if "in_bounds vd x' y' z'" for x' y' z'
  proof -
    from that assms(6) have "y' \<in> set [0..cs - 1]" by (simp add: in_bounds_def)
    with vd'(4) [rule_format, OF that] show ?thesis by (simp add: Let_def)
  qed
  from 1 2 vd'(2,3) show ?thesis unfolding h_def g'_def n_def by blast
qed

lemma generate_columns_frame:
  assumes "storage_inv vd" "cs = chunk_size_y vd" "columns_ok cols"
  shows "\<exists>g' vd'. generate_columns noise cs yb xb zb cols (g, vd) = Some (g', vd') \<and> storage_inv vd' \<and>
           chunk_size_y vd' = chunk_size_y vd \<and> params g' = params g \<and>
           (\<forall>x' y' z'. in_bounds vd x' y' z' \<and> (z', x') \<notin> set cols \<longrightarrow>
              get_voxel vd' x' y' z' = get_voxel vd x' y' z')"
  using assms
proof (induction cols arbitrary: g vd)
  case Nil
  then show ?case by (simp add: generate_columns_def)
next
  case (Cons c cols)
  obtain z x where c: "c = (z, x)" by (cases c) auto
  have r: "0 \<le> x" "x < 16" "0 \<le> z" "z < 16" and ok: "columns_ok cols"
    using Cons.prems(3) c by (simp_all add: columns_ok_def)
  from generate_column_cells [OF Cons.prems(1) r Cons.prems(2), of noise yb xb zb g]
  obtain vd1 where vd1: "generate_column noise cs yb xb zb z x (g, vd) =
                  Some (snd (get_height_at noise g (xb + x) (zb + z)), vd1)"
    "storage_inv vd1" "chunk_size_y vd1 = chunk_size_y vd"
    "\<forall>x' y' z'. in_bounds vd x' y' z' \<longrightarrow>
              get_voxel vd1 x' y' z' =
                (let t = classify_voxel (params g) (fst (get_height_at noise g (xb + x) (zb + z)))
                           (noise (xb + x) (zb + z)) (yb + y')
                 in if x' = x \<and> z' = z \<and> t \<noteq> AIR then Some t else get_voxel vd x' y' z')"
    by blast
  define g1 where "g1 = snd (get_height_at noise g (xb + x) (zb + z))"
  have cs1: "cs = chunk_size_y vd1" using Cons.prems(2) vd1(3) by simp
  from Cons.IH [OF vd1(2) cs1 ok, of g1]
  obtain g' vd' where r': "generate_columns noise cs yb xb zb cols (g1, vd1) = Some (g', vd')"
    "storage_inv vd'" "chunk_size_y vd' = chunk_size_y vd1" "params g' = params g1"
    "\<forall>x' y' z'. in_bounds vd1 x' y' z' \<and> (z', x') \<notin> set cols \<longrightarrow>
              get_voxel vd' x' y' z' = get_voxel vd1 x' y' z'" by blast
  have ib: "in_bounds vd1 = in_bounds vd" by (rule in_bounds_cong [OF vd1(3)])
  have 1: "generate_columns noise cs yb xb zb (c # cols) (g, vd) = Some (g', vd')"
    using vd1(1) r'(1) c by (simp add: generate_columns_def g1_def)
  have 2: "params g' = params g" using r'(4) by (simp add: g1_def get_height_at_params)
  have 3: "get_voxel vd' x' y' z' = get_voxel vd x' y' z'"
    if "in_bounds vd x' y' z'" "(z', x') \<notin> set (c # cols)" for x' y' z'
  proof -
    from that c have ne: "\<not> (x' = x \<and> z' = z)" and ni: "(z', x') \<notin> set cols" by auto
    from r'(5) that(1) ni ib have "get_voxel vd' x' y' z' = get_voxel vd1 x' y' z'" by simp
    also have "\<dots> = get_voxel vd x' y' z'"
      using vd1(4) [rule_format, OF that(1)] ne by (auto simp: Let_def)
    finally show ?thesis .
  qed
  from 1 2 3 r'(2,3) vd1(3) show ?case by auto
qed

lemma generate_columns_split:
  assumes "storage_inv vd" "cs = chunk_size_y vd" "columns_ok (pre @ (z, x) # post)"
    "(z, x) \<notin> set pre" "(z, x) \<notin> set post"
  shows "\<exists>g1 vd1 g2 vd2.
           generate_columns noise cs yb xb zb pre (g, vd) = Some (g1, vd1) \<and>
           generate_columns noise cs yb xb zb (pre @ (z, x) # post) (g, vd) = Some (g2, vd2) \<and>
           params g1 = params g \<and>
           (\<forall>y'. in_bounds vd x y' z \<longrightarrow>
              get_voxel vd2 x y' z =
                (let t = classify_voxel (params g) (fst (get_height_at noise g1 (xb + x) (zb + z)))
                           (noise (xb + x) (zb + z)) (yb + y')
                 in if t \<noteq> AIR then Some t else get_voxel vd x y' z))"
proof -
  have ok: "columns_ok pre" "columns_ok post" and r: "0 \<le> x" "x < 16" "0 \<le> z" "z < 16"
    using assms(3) by (simp_all add: columns_ok_def)
  from generate_columns_frame [OF assms(1,2) ok(1), of noise yb xb zb g]
  obtain g1 vd1 where 1: "generate_columns noise cs yb xb zb pre (g, vd) = Some (g1, vd1)"
    "storage_inv vd1" "chunk_size_y vd1 = chunk_size_y vd" "params g1 = params g"
    "\<forall>x' y' z'. in_bounds vd x' y' z' \<and> (z', x') \<notin> set pre \<longrightarrow>
              get_voxel vd1 x' y' z' = get_voxel vd x' y' z'" by blast
  have cs1: "cs = chunk_size_y vd1" using assms(2) 1(3) by simp
  define g1' where "g1' = snd (get_height_at noise g1 (xb + x) (zb + z))"
  from generate_column_cells [OF 1(2) r cs1, of noise yb xb zb g1]
  obtain vd1' where 2: "generate_column noise cs yb xb zb z x (g1, vd1) = Some (g1', vd1')"
    "storage_inv vd1'" "chunk_size_y vd1' = chunk_size_y vd1"
    "\<forall>x' y' z'. in_bounds vd1 x' y' z' \<longrightarrow>
              get_voxel vd1' x' y' z' =
                (let t = classify_voxel (params g1) (fst (get_height_at noise g1 (xb + x) (zb + z)))
                           (noise (xb + x) (zb + z)) (yb + y')
                 in if x' = x \<and> z' = z \<and> t \<noteq> AIR then Some t else get_voxel vd1 x' y' z')"
    unfolding g1'_def by blast
  have cs2: "cs = chunk_size_y vd1'" using cs1 2(3) by simp
  from generate_columns_frame [OF 2(2) cs2 ok(2), of noise yb xb zb g1']
  obtain g2 vd2 where 3: "generate_columns noise cs yb xb zb post (g1', vd1') = Some (g2, vd2)"
    "\<forall>x' y' z'. in_bounds vd1' x' y' z' \<and> (z', x') \<notin> set post \<longrightarrow>
              get_voxel vd2 x' y' z' = get_voxel vd1' x' y' z'" by blast
  have ib: "in_bounds vd1 = in_bounds vd" "in_bounds vd1' = in_bounds vd"
    using in_bounds_cong [OF 1(3)] in_bounds_cong [of vd1' vd] 1(3) 2(3) by simp_all
  have 4: "generate_columns noise cs yb xb zb (pre @ (z, x) # post) (g, vd) = Some (g2, vd2)"
    using 1(1) 2(1) 3(1) by (simp add: generate_columns_def fold_option_append)
  have 5: "get_voxel vd2 x y' z =
                (let t = classify_voxel (params g) (fst (get_height_at noise g1 (xb + x) (zb + z)))
                           (noise (xb + x) (zb + z)) (yb + y')
                 in if t \<noteq> AIR then Some t else get_voxel vd x y' z)"
    if "in_bounds vd x y' z" for y'
  proof -
    from 3(2) that ib assms(5) have "get_voxel vd2 x y' z = get_voxel vd1' x y' z" by simp
    moreover from 2(4) that ib have "get_voxel vd1' x y' z =
                (let t = classify_voxel (params g1) (fst (get_height_at noise g1 (xb + x) (zb + z)))
                           (noise (xb + x) (zb + z)) (yb + y')
                 in if t \<noteq> AIR then Some t else get_voxel vd1 x y' z)" by (simp add: Let_def)
    moreover from 1(5) that assms(4) have "get_voxel vd1 x y' z = get_voxel vd x y' z" by simp
    ultimately show ?thesis using 1(4) by (simp add: Let_def)
  qed
  from 1(1,4) 4 5 show ?thesis by blast
qed

lemma all_columns_split:
  assumes "0 \<le> x" "x < 16" "0 \<le> z" "z < 16"
  shows "\<exists>post. all_columns = columns_before z x @ (z, x) # post \<and>
           (z, x) \<notin> set (columns_before z x) \<and> (z, x) \<notin> set post"
proof -
  have d: "distinct all_columns"
    by (simp add: all_columns_def distinct_product)
  have m: "(z, x) \<in> set all_columns"
    using assms by (simp add: all_columns_def CHUNK_SIZE_XZ_def)
  define post where "post = tl (dropWhile (\<lambda>c. c \<noteq> (z, x)) all_columns)"
  have ne: "dropWhile (\<lambda>c. c \<noteq> (z, x)) all_columns \<noteq> []"
    using m by (simp add: dropWhile_eq_Nil_conv)
  have "hd (dropWhile (\<lambda>c. c \<noteq> (z, x)) all_columns) = (z, x)"
    using hd_dropWhile [OF ne] by simp
  with ne have dw: "dropWhile (\<lambda>c. c \<noteq> (z, x)) all_columns = (z, x) # post"
    unfolding post_def by (cases "dropWhile (\<lambda>c. c \<noteq> (z, x)) all_columns") auto
  have 1: "all_columns = columns_before z x @ (z, x) # post"
    using takeWhile_dropWhile_id [of "\<lambda>c. c \<noteq> (z, x)" all_columns] dw
    by (simp add: columns_before_def)
  have 2: "(z, x) \<notin> set (columns_before z x)"
    unfolding columns_before_def using set_takeWhileD [of "(z, x)" "\<lambda>c. c \<noteq> (z, x)" all_columns]
    by blast
  from d 1 have "distinct (columns_before z x @ (z, x) # post)" by simp
  then have 3: "(z, x) \<notin> set post" by simp
  from 1 2 3 show ?thesis by blast
qed

lemma columns_ok_all: "columns_ok all_columns"
  by (auto simp: columns_ok_def all_columns_def CHUNK_SIZE_XZ_def)


text \<open>A second lookup of the same coordinate returns the same height and changes nothing.\<close>

lemma get_height_at_repeat:
  "get_height_at noise (snd (get_height_at noise g wx wz)) wx wz = get_height_at noise g wx wz"
  by (simp add: get_height_at_def Let_def split: option.splits)

text \<open>Both exits of \<open>generate_chunk\<close> leave the chunk in state Active.\<close>

lemma generate_chunk_marks_active:
  assumes "generate_chunk noise g c = Some (g', c')" "voxel_data c \<noteq> None"
  shows "state c' = ACTIVE"
  using assms
  by (auto simp: generate_chunk_def set_state_def Let_def
      split: option.splits prod.splits if_splits)

text \<open>The cell of column \<open>(x, z)\<close> at height \<open>y\<close> once the loop nest has run.\<close>

lemma generate_voxels_cell:
  assumes "storage_inv vd" "cs = chunk_size_y vd" "0 \<le> x" "x < 16" "0 \<le> z" "z < 16" "0 \<le> y" "y < cs"
  shows "\<exists>g1 vd1 g2 vd2.
           generate_columns noise cs yb xb zb (columns_before z x) (g, vd) = Some (g1, vd1) \<and>
           generate_voxels noise cs yb xb zb (g, vd) = Some (g2, vd2) \<and>
           get_voxel vd2 x y z =
             (let t = classify_voxel (params g) (fst (get_height_at noise g1 (xb + x) (zb + z)))
                        (noise (xb + x) (zb + z)) (yb + y)
              in if t \<noteq> AIR then Some t else get_voxel vd x y z)"
proof -
  from all_columns_split [OF assms(3-6)]
  obtain post where post: "all_columns = columns_before z x @ (z, x) # post"
    "(z, x) \<notin> set (columns_before z x)" "(z, x) \<notin> set post" by blast
  have ok: "columns_ok (columns_before z x @ (z, x) # post)"
    using columns_ok_all post(1) by simp
  have b: "in_bounds vd x y z"
    using assms(2-8) by (simp add: in_bounds_def CHUNK_SIZE_XZ_def)
  from generate_columns_split [OF assms(1,2) ok post(2,3), of noise yb xb zb g]
  obtain g1 vd1 g2 vd2 where r:
    "generate_columns noise cs yb xb zb (columns_before z x) (g, vd) = Some (g1, vd1)"
    "generate_columns noise cs yb xb zb (columns_before z x @ (z, x) # post) (g, vd) = Some (g2, vd2)"
    "\<forall>y'. in_bounds vd x y' z \<longrightarrow>
              get_voxel vd2 x y' z =
                (let t = classify_voxel (params g) (fst (get_height_at noise g1 (xb + x) (zb + z)))
                           (noise (xb + x) (zb + z)) (yb + y')
                 in if t \<noteq> AIR then Some t else get_voxel vd x y' z)" by blast
  from r(2) post(1) have 1: "generate_voxels noise cs yb xb zb (g, vd) = Some (g2, vd2)"
    by (simp add: generate_voxels_columns)
  from r(3) b have 2: "get_voxel vd2 x y z =
             (let t = classify_voxel (params g) (fst (get_height_at noise g1 (xb + x) (zb + z)))
                        (noise (xb + x) (zb + z)) (yb + y)
              in if t \<noteq> AIR then Some t else get_voxel vd x y z)" by blast
  from r(1) 1 2 show ?thesis by blast
qed

lemma float_to_int_exact:
  assumes "0 \<le> h"
  shows "(h \<le> of_int wy \<and> wy = float_to_int h) \<longleftrightarrow> of_int wy = h"
proof
  assume a: "h \<le> of_int wy \<and> wy = float_to_int h"
  with assms have "wy = \<lfloor>h\<rfloor>" by (simp add: float_to_int_def)
  then have "of_int wy \<le> h" by simp
  moreover from a have "h \<le> of_int wy" by blast
  ultimately show "of_int wy = h" by linarith
next
  assume "of_int wy = h"
  then have h: "h = of_int wy" by simp
  with assms show "h \<le> of_int wy \<and> wy = float_to_int h"
    by (simp add: float_to_int_def)
qed

text \<open>
  C2. The claim fails for negative \<open>z\<close>: the conversion of a negative \<open>wz\<close> to
  \<open>uint64_t\<close> sets the upper 32 bits, the packed keys of \<open>(0, -1)\<close> and \<open>(1, -1)\<close> are
  equal, and the second lookup returns the height stored by the first (64) instead of
  \<open>base_height + noise2d(1, -1) * max_height_variation\<close> (76 for the noise function below).
\<close>

theorem get_height_at_key_collision:
  "make_cache_key 0 (- 1) = make_cache_key 1 (- 1) \<and>
   (let noise = (\<lambda>x z. if x = 0 then 0 else 1 / 2);
        r1 = get_height_at noise TerrainGenerator_new 0 (- 1);
        r2 = get_height_at noise (snd r1) 1 (- 1)
    in fst r1 = 64 \<and> fst r2 = 64 \<and>
       of_int (base_height (params (snd r1))) +
         noise 1 (- 1) * of_int (max_height_variation (params (snd r1))) = 76)"
  by (simp add: make_cache_key_def get_height_at_def TerrainGenerator_new_def
      default_TerrainParams_values Let_def round_f32_small)

lemma columns_before_first: "columns_before 0 0 = []"
  by (simp add: columns_before_def all_columns_def CHUNK_SIZE_XZ_def upto_rec1)

lemma generate_voxels_inv:
  assumes "storage_inv vd" "cs = chunk_size_y vd"
  shows "\<exists>g2 vd2. generate_voxels noise cs yb xb zb (g, vd) = Some (g2, vd2) \<and>
           storage_inv vd2 \<and> chunk_size_y vd2 = chunk_size_y vd \<and> params g2 = params g"
  using generate_columns_frame [OF assms columns_ok_all, of noise yb xb zb g]
  by (auto simp: generate_voxels_columns)

lemma sample_column_params:
  "params (fst (sample_column noise yb ym xb zb zx st)) = params (fst st)"
  by (cases zx; cases st)
     (simp add: sample_column_def Let_def get_height_at_params split: prod.splits,
      metis get_height_at_params snd_conv)

lemma sample_columns_params:
  "params (fst (fold (sample_column noise yb ym xb zb) cols st)) = params (fst st)"
  by (induction cols arbitrary: st) (simp_all add: sample_column_params)

text \<open>
  The whole of \<open>generate_chunk\<close>: when the coarse pass finds the chunk above every sampled
  height the chunk is filled with air; otherwise the loop nest runs from the generator the
  coarse pass left, and the cells it wrote are read back unchanged after the optimisation
  pass. Either way the chunk ends in state Active.
\<close>

lemma generate_chunk_cell:
  assumes "voxel_data c = Some vd" "storage_inv vd" "position c = (px, py, pz)"
    "cs = chunk_size_y vd" "0 \<le> x" "x < 16" "0 \<le> z" "z < 16" "0 \<le> y" "y < cs"
    "fold (sample_column noise (py * cs) (py * cs + cs) (px * CHUNK_SIZE_XZ) (pz * CHUNK_SIZE_XZ))
       sampled_columns (g, True, True) = (g0, all_above, all_below)"
  shows "all_above \<Longrightarrow>
           generate_chunk noise g c =
             Some (g0, set_state (c\<lparr> voxel_data := Some (fill vd AIR) \<rparr>) ACTIVE)"
    and "\<not> all_above \<Longrightarrow>
           \<exists>g1 vd1 g' vd'.
             generate_columns noise cs (py * cs) (px * CHUNK_SIZE_XZ) (pz * CHUNK_SIZE_XZ)
               (columns_before z x) (g0, vd) = Some (g1, vd1) \<and>
             generate_chunk noise g c = Some (g', set_state (c\<lparr> voxel_data := Some vd' \<rparr>) ACTIVE) \<and>
             get_voxel vd' x y z =
               (let t = classify_voxel (params g)
                          (fst (get_height_at noise g1 (px * CHUNK_SIZE_XZ + x) (pz * CHUNK_SIZE_XZ + z)))
                          (noise (px * CHUNK_SIZE_XZ + x) (pz * CHUNK_SIZE_XZ + z)) (py * cs + y)
                in if t \<noteq> AIR then Some t else get_voxel vd x y z)"
proof -
  show "generate_chunk noise g c =
          Some (g0, set_state (c\<lparr> voxel_data := Some (fill vd AIR) \<rparr>) ACTIVE)" if all_above
    using that assms(1,3,4,11) by (simp add: generate_chunk_def Let_def)
next
  assume na: "\<not> all_above"
  let ?yb = "py * cs" and ?xb = "px * CHUNK_SIZE_XZ" and ?zb = "pz * CHUNK_SIZE_XZ"
  have p0: "params g0 = params g"
    using sample_columns_params [of noise ?yb "?yb + cs" ?xb ?zb sampled_columns "(g, True, True)"]
      assms(11) by simp
  from generate_voxels_cell [OF assms(2,4-10), of noise ?yb ?xb ?zb g0]
  obtain g1 vd1 g2 vd2 where r:
    "generate_columns noise cs ?yb ?xb ?zb (columns_before z x) (g0, vd) = Some (g1, vd1)"
    "generate_voxels noise cs ?yb ?xb ?zb (g0, vd) = Some (g2, vd2)"
    "get_voxel vd2 x y z =
       (let t = classify_voxel (params g0) (fst (get_height_at noise g1 (?xb + x) (?zb + z)))
                  (noise (?xb + x) (?zb + z)) (?yb + y)
        in if t \<noteq> AIR then Some t else get_voxel vd x y z)" by blast
  from generate_voxels_inv [OF assms(2,4), of noise ?yb ?xb ?zb g0] r(2)
  have inv: "storage_inv vd2" "chunk_size_y vd2 = chunk_size_y vd" by auto
  from check_uniform_state [OF inv(1)]
  obtain r' vd3 where ch: "check_and_optimize_uniform vd2 = Some (r', vd3)"
    "\<forall>x y z. in_bounds vd2 x y z \<longrightarrow> get_voxel vd3 x y z = get_voxel vd2 x y z" by blast
  have b: "in_bounds vd2 x y z"
    using assms(4-10) inv(2) by (simp add: in_bounds_def CHUNK_SIZE_XZ_def)
  have 1: "generate_chunk noise g c = Some (g2, set_state (c\<lparr> voxel_data := Some vd3 \<rparr>) ACTIVE)"
    using na assms(1,3,4,11) r(2) ch(1) by (simp add: generate_chunk_def Let_def)
  have 2: "get_voxel vd3 x y z = get_voxel vd2 x y z" using ch(2) b by blast
  from r(1) 1 2 r(3) p0 show "\<exists>g1 vd1 g' vd'.
             generate_columns noise cs ?yb ?xb ?zb (columns_before z x) (g0, vd) = Some (g1, vd1) \<and>
             generate_chunk noise g c = Some (g', set_state (c\<lparr> voxel_data := Some vd' \<rparr>) ACTIVE) \<and>
             get_voxel vd' x y z =
               (let t = classify_voxel (params g)
                          (fst (get_height_at noise g1 (?xb + x) (?zb + z)))
                          (noise (?xb + x) (?zb + z)) (?yb + y)
                in if t \<noteq> AIR then Some t else get_voxel vd x y z)"
    by auto
qed

text \<open>
  C3 (as amended). During chunk population with a noise primitive whose values lie in
  \<open>[-1, 1]\<close>, when the coarse pass does not find the chunk above every sampled height (the
  case in which the chunk is filled with air and nothing else is done), for the column
  \<open>(x, z)\<close> with computed height \<open>h\<close> (the value \<open>get_height_at\<close> returns when the loops
  reach the column) and an in-chunk \<open>y\<close> with world coordinate \<open>wy\<close>, with \<open>wy\<close> converted to
  float and \<open>h - 4\<close> subtracted in floats: below \<open>h\<close> and below \<open>h - 4\<close> the cell becomes
  stone; below \<open>h\<close> and not below \<open>h - 4\<close> it becomes dirt; not below \<open>h\<close> and with \<open>wy\<close>
  equal to \<open>h\<close> truncated towards zero it becomes the surface block of the decision table
  (noise above the mountain threshold: stone if \<open>h\<close> is above the base height plus 15, else
  gravel; noise below the beach threshold: sand; otherwise grass if \<open>h\<close> is above the water
  level, else sand); at any other \<open>wy\<close> not below \<open>h\<close> and below the water level it becomes
  water; otherwise it is not written and keeps its value (empty in a fresh chunk). The
  conversion of \<open>wy\<close> is exact up to \<open>2^24\<close> in absolute value, the subtraction
  \<open>h - 4\<close> is exact for a float \<open>h\<close> from 4 up to \<open>2^26\<close>, and for \<open>h \<ge> 0\<close> the surface
  case is exactly \<open>wy = h\<close>. The chunk ends in state Active.
\<close>

theorem generate_chunk_classification:
  assumes "voxel_data c = Some vd" "storage_inv vd" "position c = (px, py, pz)"
    "cs = chunk_size_y vd" "0 \<le> x" "x < 16" "0 \<le> z" "z < 16" "0 \<le> y" "y < cs"
    "fold (sample_column noise (py * cs) (py * cs + cs) (px * CHUNK_SIZE_XZ) (pz * CHUNK_SIZE_XZ))
       sampled_columns (g, True, True) = (g0, False, all_below)"
    "\<forall>wx wz. \<bar>noise wx wz\<bar> \<le> 1"
  shows "\<exists>g1 vd1 g' vd'.
           generate_columns noise cs (py * cs) (px * CHUNK_SIZE_XZ) (pz * CHUNK_SIZE_XZ)
             (columns_before z x) (g0, vd) = Some (g1, vd1) \<and>
           generate_chunk noise g c = Some (g', set_state (c\<lparr> voxel_data := Some vd' \<rparr>) ACTIVE) \<and>
           (let p = params g;
                h = fst (get_height_at noise g1 (px * CHUNK_SIZE_XZ + x) (pz * CHUNK_SIZE_XZ + z));
                n = noise (px * CHUNK_SIZE_XZ + x) (pz * CHUNK_SIZE_XZ + z);
                wy = py * cs + y;
                fy = round_f32 (of_int wy);
                lo = round_f32 (h - 4);
                th = (if 0 \<le> h then \<lfloor>h\<rfloor> else \<lceil>h\<rceil>);
                surface =
                  (if mountain_threshold p < n
                   then (if round_f32 (of_int (base_height p + 15)) < h then STONE else GRAVEL)
                   else if n < beach_threshold p then SAND
                   else if water_level p < h then GRASS
                   else SAND);
                cell = get_voxel vd' x y z
            in (fy < h \<and> fy < lo \<longrightarrow> cell = Some STONE) \<and>
               (fy < h \<and> lo \<le> fy \<longrightarrow> cell = Some DIRT) \<and>
               (h \<le> fy \<and> wy = th \<longrightarrow> cell = Some surface) \<and>
               (h \<le> fy \<and> wy \<noteq> th \<and> fy < water_level p \<longrightarrow> cell = Some WATER) \<and>
               (h \<le> fy \<and> wy \<noteq> th \<and> water_level p \<le> fy \<longrightarrow> cell = get_voxel vd x y z) \<and>
               (\<bar>wy\<bar> \<le> 2 ^ 24 \<longrightarrow> fy = of_int wy) \<and>
               (round_f32 h = h \<and> 4 \<le> h \<and> h < 2 ^ 26 \<longrightarrow> lo = h - 4) \<and>
               (0 \<le> h \<and> \<bar>wy\<bar> \<le> 2 ^ 24 \<longrightarrow> ((h \<le> fy \<and> wy = th) \<longleftrightarrow> of_int wy = h)))"
proof -
  have na: "\<not> False" by simp
  from generate_chunk_cell(2) [OF assms(1-11) na]
  obtain g1 vd1 g' vd' where r:
    "generate_columns noise cs (py * cs) (px * CHUNK_SIZE_XZ) (pz * CHUNK_SIZE_XZ)
       (columns_before z x) (g0, vd) = Some (g1, vd1)"
    "generate_chunk noise g c = Some (g', set_state (c\<lparr> voxel_data := Some vd' \<rparr>) ACTIVE)"
    "get_voxel vd' x y z =
       (let t = classify_voxel (params g)
                  (fst (get_height_at noise g1 (px * CHUNK_SIZE_XZ + x) (pz * CHUNK_SIZE_XZ + z)))
                  (noise (px * CHUNK_SIZE_XZ + x) (pz * CHUNK_SIZE_XZ + z)) (py * cs + y)
        in if t \<noteq> AIR then Some t else get_voxel vd x y z)" by blast
  define p where "p = params g"
  define h where "h = fst (get_height_at noise g1 (px * CHUNK_SIZE_XZ + x) (pz * CHUNK_SIZE_XZ + z))"
  define n where "n = noise (px * CHUNK_SIZE_XZ + x) (pz * CHUNK_SIZE_XZ + z)"
  define wy where "wy = py * cs + y"
  define fy where "fy = round_f32 (of_int wy)"
  define lo where "lo = round_f32 (h - 4)"
  define th where "th = (if 0 \<le> h then \<lfloor>h\<rfloor> else \<lceil>h\<rceil>)"
  define surface where "surface =
                  (if mountain_threshold p < n
                   then (if round_f32 (of_int (base_height p + 15)) < h then STONE else GRAVEL)
                   else if n < beach_threshold p then SAND
                   else if water_level p < h then GRASS
                   else SAND)"
  define cell where "cell = get_voxel vd' x y z"
  have four: "round_f32 (of_int 4) = 4" using round_f32_of_int [of 4] by simp
  have cv: "classify_voxel p h n wy =
              (if fy < h then (if fy < lo then STONE else DIRT)
               else if wy = th then surface
               else if fy < water_level p then WATER else AIR)"
    unfolding classify_voxel_def four fy_def lo_def th_def surface_def float_to_int_def
      get_surface_block_def by simp
  have sf: "surface \<noteq> AIR" by (simp add: surface_def block_defs)
  have c: "cell = (let t = classify_voxel p h n wy
                   in if t \<noteq> AIR then Some t else get_voxel vd x y z)"
    using r(3) by (simp add: cell_def h_def n_def wy_def p_def)
  have 1: "cell = Some STONE" if "fy < h \<and> fy < lo"
    using that c by (simp add: cv block_defs)
  have 2: "cell = Some DIRT" if "fy < h \<and> lo \<le> fy"
    using that c by (simp add: cv block_defs)
  have 3: "cell = Some surface" if "h \<le> fy \<and> wy = th"
    unfolding c cv using that sf by (simp add: Let_def)
  have 4: "cell = Some WATER" if "h \<le> fy \<and> wy \<noteq> th \<and> fy < water_level p"
    using that c by (simp add: cv block_defs)
  have 5: "cell = get_voxel vd x y z" if "h \<le> fy \<and> wy \<noteq> th \<and> water_level p \<le> fy"
    using that c by (simp add: cv)
  have 6: "fy = of_int wy" if "\<bar>wy\<bar> \<le> 2 ^ 24"
    unfolding fy_def using that by (rule round_f32_of_int)
  have 7: "lo = h - 4" if "round_f32 h = h \<and> 4 \<le> h \<and> h < 2 ^ 26"
    unfolding lo_def using that by (simp add: round_f32_minus_4)
  have 8: "(h \<le> fy \<and> wy = th) \<longleftrightarrow> of_int wy = h" if "0 \<le> h \<and> \<bar>wy\<bar> \<le> 2 ^ 24"
  proof -
    from that have "fy = of_int wy" by (simp add: 6)
    moreover from that have "th = float_to_int h" by (simp add: th_def float_to_int_def)
    ultimately show ?thesis using float_to_int_exact [of h wy] that by simp
  qed
  have concl:
    "(fy < h \<and> fy < lo \<longrightarrow> cell = Some STONE) \<and>
     (fy < h \<and> lo \<le> fy \<longrightarrow> cell = Some DIRT) \<and>
     (h \<le> fy \<and> wy = th \<longrightarrow> cell = Some surface) \<and>
     (h \<le> fy \<and> wy \<noteq> th \<and> fy < water_level p \<longrightarrow> cell = Some WATER) \<and>
     (h \<le> fy \<and> wy \<noteq> th \<and> water_level p \<le> fy \<longrightarrow> cell = get_voxel vd x y z) \<and>
     (\<bar>wy\<bar> \<le> 2 ^ 24 \<longrightarrow> fy = of_int wy) \<and>
     (round_f32 h = h \<and> 4 \<le> h \<and> h < 2 ^ 26 \<longrightarrow> lo = h - 4) \<and>
     (0 \<le> h \<and> \<bar>wy\<bar> \<le> 2 ^ 24 \<longrightarrow> ((h \<le> fy \<and> wy = th) \<longleftrightarrow> of_int wy = h))"
    by (intro conjI impI) (erule 1 2 3 4 5 6 7 8)+
  note concl' = concl [unfolded p_def h_def n_def wy_def fy_def lo_def th_def surface_def cell_def]
  show ?thesis
    unfolding Let_def
    by (rule exI [of _ g1], rule exI [of _ vd1], rule exI [of _ g'], rule exI [of _ vd'])
       (rule conjI [OF r(1) conjI [OF r(2) concl']])
qed

lemma sampled_columns_list:
  "sampled_columns =
     [(0, 0), (0, 4), (0, 8), (0, 12), (4, 0), (4, 4), (4, 8), (4, 12),
      (8, 0), (8, 4), (8, 8), (8, 12), (12, 0), (12, 4), (12, 8), (12, 12)]"
  by (simp add: sampled_columns_def)

theorem generate_chunk_classification_witness:
  "\<exists>g' vd'. generate_chunk (\<lambda>x z. 11184811 / 2 ^ 28) TerrainGenerator_new
               (initialize_chunk (Chunk_new :: nat Chunk) (0, 4, 0) 16) =
               Some (g', set_state (initialize_chunk Chunk_new (0, 4, 0) 16
                                      \<lparr> voxel_data := Some vd' \<rparr>) ACTIVE) \<and>
            fst (get_height_at (\<lambda>x z. 11184811 / 2 ^ 28) TerrainGenerator_new 0 0) = 65 \<and>
            get_voxel vd' 0 0 0 = Some DIRT \<and> get_voxel vd' 0 1 0 = Some GRASS \<and>
            get_voxel vd' 0 2 0 = Some AIR"
proof -
  define c0 :: real where "c0 = 11184811 / 2 ^ 28"
  define noise :: "int \<Rightarrow> int \<Rightarrow> real" where "noise = (\<lambda>x z. c0)"
  let ?c = "initialize_chunk (Chunk_new :: nat Chunk) (0, 4, 0) 16"
  have vd: "voxel_data ?c = Some (VoxelData_new 16)" and pos: "position ?c = (0, 4, 0)"
    by (simp_all add: initialize_chunk_def)
  have w: "storage_inv (VoxelData_new 16)"
    by (simp add: storage_inv_def VoxelData_new_def CHUNK_SIZE_XZ_def)
  have cs: "16 = chunk_size_y (VoxelData_new 16)" by (simp add: VoxelData_new_def)
  have nb: "\<forall>wx wz. \<bar>noise wx wz\<bar> \<le> 1" by (simp add: noise_def c0_def)
  have pr: "round_f32 (c0 * 24) = 1" unfolding c0_def by code_simp
  have h0: "fst (get_height_at noise TerrainGenerator_new 0 0) = 65"
    by (simp add: get_height_at_def TerrainGenerator_new_def default_TerrainParams_values
        Let_def noise_def pr round_f32_small)
  have "\<exists>g0 b. fold (sample_column noise (4 * 16) (4 * 16 + 16) (0 * CHUNK_SIZE_XZ) (0 * CHUNK_SIZE_XZ))
                 sampled_columns (TerrainGenerator_new, True, True) = (g0, False, b) \<and>
               height_cache g0 (make_cache_key 0 0) = Some 65"
    by (auto simp: sampled_columns_list sample_column_def get_height_at_def Let_def
        TerrainGenerator_new_def default_TerrainParams_values make_cache_key_def noise_def pr
        round_f32_small)
  then obtain g0 b where s:
    "fold (sample_column noise (4 * 16) (4 * 16 + 16) (0 * CHUNK_SIZE_XZ) (0 * CHUNK_SIZE_XZ))
       sampled_columns (TerrainGenerator_new, True, True) = (g0, False, b)"
    "height_cache g0 (make_cache_key 0 0) = Some 65" by blast
  have h: "fst (get_height_at noise g0 0 0) = 65"
    using s(2) by (simp add: get_height_at_def Let_def)
  have n: "noise 0 0 = c0" by (simp add: noise_def)
  have t: "\<not> mountain_threshold (params TerrainGenerator_new) < c0"
    "\<not> c0 < beach_threshold (params TerrainGenerator_new)"
    "water_level (params TerrainGenerator_new) = 64"
    by (simp_all add: TerrainGenerator_new_def default_TerrainParams_values c0_def)
  have e: "get_voxel (VoxelData_new 16) 0 2 0 = Some AIR"
    by (simp add: get_voxel_def VoxelData_new_def)
  have ne: "DIRT \<noteq> STONE" by (simp add: block_defs)
  from generate_chunk_classification [OF vd w pos cs _ _ _ _ _ _ s(1) nb, of 0 0 0]
  obtain g' vd' where a:
    "generate_chunk noise TerrainGenerator_new ?c = Some (g', set_state (?c\<lparr> voxel_data := Some vd' \<rparr>) ACTIVE)"
    "get_voxel vd' 0 0 0 = Some DIRT"
    by (auto simp: columns_before_first generate_columns_def h n t Let_def round_f32_small)
  have inj: "v1 = v2"
    if "set_state (?c\<lparr> voxel_data := Some v1 \<rparr>) ACTIVE = set_state (?c\<lparr> voxel_data := Some v2 \<rparr>) ACTIVE"
    for v1 v2
  proof -
    from that have "voxel_data (set_state (?c\<lparr> voxel_data := Some v1 \<rparr>) ACTIVE) =
                    voxel_data (set_state (?c\<lparr> voxel_data := Some v2 \<rparr>) ACTIVE)" by simp
    then show ?thesis by (simp add: set_state_def)
  qed
  from generate_chunk_classification [OF vd w pos cs _ _ _ _ _ _ s(1) nb, of 0 0 1] a(1)
  have b: "get_voxel vd' 0 1 0 = Some GRASS"
    by (auto simp: columns_before_first generate_columns_def h n t Let_def round_f32_small
        dest: inj)
  from generate_chunk_classification [OF vd w pos cs _ _ _ _ _ _ s(1) nb, of 0 0 2] a(1)
  have d: "get_voxel vd' 0 2 0 = Some AIR"
    by (auto simp: columns_before_first generate_columns_def h n t e Let_def round_f32_small
        dest: inj)
  from a b d h0 show ?thesis
    unfolding noise_def c0_def by blast
qed

text \<open>
  C3 as stated fails in two ways. First, with the default parameters and constant noise
  \<open>-3/4\<close> every height is 46; the chunk at \<open>(0, 3, 0)\<close> starts at world height 48, above
  every sampled height, so the coarse pass fills it with air: its cell \<open>(0, 0, 0)\<close> at
  \<open>wy = 48\<close>, strictly between the height and the water level 64, is air, not water.
  Second, for a negative height that is not an integer: with base height \<open>-5\<close> (set with
  \<open>set_params\<close>) and constant noise \<open>1/16\<close> the computed height is \<open>-7/2\<close>; in the chunk
  at \<open>(0, -1, 0)\<close> the cell \<open>y = 13\<close> has \<open>wy = -3\<close>, strictly between the height and the
  water level, and after \<open>generate_chunk\<close> it holds sand (the surface block), not water.
\<close>

theorem generate_chunk_classification_counterexample:
  "(let noise = (\<lambda>x z. - (3 / 4));
        g = TerrainGenerator_new;
        c = initialize_chunk (Chunk_new :: nat Chunk) (0, 3, 0) 16;
        h = fst (get_height_at noise g 0 0);
        wy = 3 * 16 + 0
    in h = 46 \<and> h < of_int wy \<and> of_int wy < water_level (params g) \<and>
       map_option (\<lambda>r. map_option (\<lambda>vd. get_voxel vd 0 0 0) (voxel_data (snd r)))
         (generate_chunk noise g c) = Some (Some (Some AIR)) \<and>
       AIR \<noteq> WATER) \<and>
   (let noise = (\<lambda>x z. 1 / 16);
        g = set_params TerrainGenerator_new (default_TerrainParams\<lparr> base_height := - 5 \<rparr>);
        c = initialize_chunk (Chunk_new :: nat Chunk) (0, - 1, 0) 16;
        h = fst (get_height_at noise g 0 0);
        wy = - 1 * 16 + 13
    in h = - (7 / 2) \<and> h < of_int wy \<and> of_int wy < water_level (params g) \<and>
       map_option (\<lambda>r. map_option (\<lambda>vd. get_voxel vd 0 13 0) (voxel_data (snd r)))
         (generate_chunk noise g c) = Some (Some (Some SAND)) \<and>
       SAND \<noteq> WATER)"
proof -
  have w: "storage_inv (VoxelData_new 16)"
    by (simp add: storage_inv_def VoxelData_new_def CHUNK_SIZE_XZ_def)
  have cs: "16 = chunk_size_y (VoxelData_new 16)" by (simp add: VoxelData_new_def)
  have first: "(let noise = (\<lambda>x z. - (3 / 4));
        g = TerrainGenerator_new;
        c = initialize_chunk (Chunk_new :: nat Chunk) (0, 3, 0) 16;
        h = fst (get_height_at noise g 0 0);
        wy = 3 * 16 + 0
    in h = 46 \<and> h < of_int wy \<and> of_int wy < water_level (params g) \<and>
       map_option (\<lambda>r. map_option (\<lambda>vd. get_voxel vd 0 0 0) (voxel_data (snd r)))
         (generate_chunk noise g c) = Some (Some (Some AIR)) \<and>
       AIR \<noteq> WATER)"
  proof -
    define c1 :: real where "c1 = - (3 / 4)"
    define noise :: "int \<Rightarrow> int \<Rightarrow> real" where "noise = (\<lambda>x z. c1)"
    define c where "c = initialize_chunk (Chunk_new :: nat Chunk) (0, 3, 0) 16"
    have vd: "voxel_data c = Some (VoxelData_new 16)" and pos: "position c = (0, 3, 0)"
      by (simp_all add: c_def initialize_chunk_def)
    have pr: "round_f32 (c1 * 24) = - 18" unfolding c1_def by code_simp
    have h: "fst (get_height_at noise TerrainGenerator_new 0 0) = 46"
      by (simp add: get_height_at_def TerrainGenerator_new_def default_TerrainParams_values
          Let_def noise_def pr round_f32_small)
    have "\<exists>g0 b. fold (sample_column noise (3 * 16) (3 * 16 + 16) (0 * CHUNK_SIZE_XZ)
                          (0 * CHUNK_SIZE_XZ))
                   sampled_columns (TerrainGenerator_new, True, True) = (g0, True, b)"
      by (auto simp: sampled_columns_list sample_column_def get_height_at_def Let_def
          TerrainGenerator_new_def default_TerrainParams_values make_cache_key_def noise_def pr
          round_f32_small)
    then obtain g0 b where s:
      "fold (sample_column noise (3 * 16) (3 * 16 + 16) (0 * CHUNK_SIZE_XZ) (0 * CHUNK_SIZE_XZ))
         sampled_columns (TerrainGenerator_new, True, True) = (g0, True, b)" by blast
    have tr: True by simp
    from generate_chunk_cell(1) [OF vd w pos cs _ _ _ _ _ _ s tr, of 0 0 0]
    have r: "generate_chunk noise TerrainGenerator_new c =
               Some (g0, set_state (c\<lparr> voxel_data := Some (fill (VoxelData_new 16) AIR) \<rparr>) ACTIVE)"
      by simp
    have a: "get_voxel (fill (VoxelData_new 16) AIR) 0 0 0 = Some AIR"
      by (simp add: get_voxel_def fill_def VoxelData_new_def)
    have wl: "water_level (params TerrainGenerator_new) = 64"
      by (simp add: TerrainGenerator_new_def default_TerrainParams_values)
    have ne: "AIR \<noteq> WATER" by (simp add: block_defs)
    from r h a wl ne show ?thesis
      unfolding Let_def noise_def [symmetric] c1_def [symmetric] c_def [symmetric]
      by (simp add: set_state_def)
  qed
  have second: "(let noise = (\<lambda>x z. 1 / 16);
        g = set_params TerrainGenerator_new (default_TerrainParams\<lparr> base_height := - 5 \<rparr>);
        c = initialize_chunk (Chunk_new :: nat Chunk) (0, - 1, 0) 16;
        h = fst (get_height_at noise g 0 0);
        wy = - 1 * 16 + 13
    in h = - (7 / 2) \<and> h < of_int wy \<and> of_int wy < water_level (params g) \<and>
       map_option (\<lambda>r. map_option (\<lambda>vd. get_voxel vd 0 13 0) (voxel_data (snd r)))
         (generate_chunk noise g c) = Some (Some (Some SAND)) \<and>
       SAND \<noteq> WATER)"
  proof -
    define c2 :: real where "c2 = 1 / 16"
    define noise :: "int \<Rightarrow> int \<Rightarrow> real" where "noise = (\<lambda>x z. c2)"
    define g where "g = set_params TerrainGenerator_new (default_TerrainParams\<lparr> base_height := - 5 \<rparr>)"
    define c where "c = initialize_chunk (Chunk_new :: nat Chunk) (0, - 1, 0) 16"
    have vd: "voxel_data c = Some (VoxelData_new 16)" and pos: "position c = (0, - 1, 0)"
      by (simp_all add: c_def initialize_chunk_def)
    have pr: "round_f32 (c2 * 24) = 3 / 2" unfolding c2_def by code_simp
    have sm: "round_f32 (- (7 / 2)) = - (7 / 2)" by code_simp
    have h: "fst (get_height_at noise g 0 0) = - (7 / 2)"
      by (simp add: get_height_at_def g_def noise_def set_params_def clear_cache_def
          TerrainGenerator_new_def default_TerrainParams_values Let_def pr sm round_f32_small)
    have p: "params g = default_TerrainParams\<lparr> base_height := - 5 \<rparr>"
      by (simp add: g_def set_params_def clear_cache_def)
    have "\<exists>g0 b. fold (sample_column noise (- 1 * 16) (- 1 * 16 + 16) (0 * CHUNK_SIZE_XZ)
                          (0 * CHUNK_SIZE_XZ))
                   sampled_columns (g, True, True) = (g0, False, b) \<and>
                 height_cache g0 (make_cache_key 0 0) = Some (- (7 / 2))"
      by (auto simp: sampled_columns_list sample_column_def get_height_at_def Let_def g_def noise_def
          set_params_def clear_cache_def TerrainGenerator_new_def default_TerrainParams_values
          make_cache_key_def pr sm round_f32_small)
    then obtain g0 b where s:
      "fold (sample_column noise (- 1 * 16) (- 1 * 16 + 16) (0 * CHUNK_SIZE_XZ) (0 * CHUNK_SIZE_XZ))
         sampled_columns (g, True, True) = (g0, False, b)"
      "height_cache g0 (make_cache_key 0 0) = Some (- (7 / 2))" by blast
    have h0: "fst (get_height_at noise g0 0 0) = - (7 / 2)"
      using s(2) by (simp add: get_height_at_def Let_def)
    have n: "noise 0 0 = c2" by (simp add: noise_def)
    have t: "\<not> mountain_threshold (params g) < c2" "\<not> c2 < beach_threshold (params g)"
      "water_level (params g) = 64"
      by (simp_all add: p default_TerrainParams_values c2_def)
    have cl: "classify_voxel (params g) (- (7 / 2)) c2 (- 3) = SAND"
      using t by (simp add: classify_voxel_def float_to_int_def get_surface_block_def
          round_f32_small)
    have ne: "SAND \<noteq> AIR" "SAND \<noteq> WATER" by (simp_all add: block_defs)
    have na: "\<not> False" by simp
    from generate_chunk_cell(2) [OF vd w pos cs _ _ _ _ _ _ s(1) na, of 0 0 13]
    obtain g' vd' where r:
      "generate_chunk noise g c = Some (g', set_state (c\<lparr> voxel_data := Some vd' \<rparr>) ACTIVE)"
      "get_voxel vd' 0 13 0 = Some SAND"
      using ne(1) by (auto simp: columns_before_first generate_columns_def h0 cl n Let_def)
    from r h t(3) ne(2) show ?thesis
      unfolding Let_def noise_def [symmetric] c2_def [symmetric] g_def [symmetric] c_def [symmetric]
      by (simp add: set_state_def)
  qed
  from first second show ?thesis by (rule conjI)
qed

section \<open>Properties of the greedy merge\<close>

subsection \<open>Mask indices\<close>

lemma mask_index_inj:
  fixes u v u' v' U :: nat
  assumes "u < U" "u' < U" "u + v * U = u' + v' * U"
  shows "u = u' \<and> v = v'"
proof -
  have "(u + v * U) mod U = u" "(u' + v' * U) mod U = u'" using assms(1,2) by simp_all
  with assms(3) have 1: "u = u'" by simp
  have "(u + v * U) div U = v" "(u' + v' * U) div U = v'" using assms(1,2) by simp_all
  with assms(3) have 2: "v = v'" by simp
  from 1 2 show ?thesis by simp
qed

lemma mask_index_less:
  fixes u v U V :: nat
  assumes "u < U" "v < V"
  shows "u + v * U < U * V"
proof -
  have "u + v * U < U + v * U" using assms(1) by simp
  also have "\<dots> = Suc v * U" by simp
  also have "\<dots> \<le> V * U" using assms(2) by (intro mult_le_mono1) simp
  finally show ?thesis by (simp add: mult.commute)
qed

subsection \<open>Clearing a rectangle\<close>

lemma nth_list_update_any:
  "j < length xs \<Longrightarrow> xs[i := x] ! j = (if i = j then x else xs ! j)"
  by (cases "i = j") simp_all

lemma clear_run_length:
  "length (fold (\<lambda>k m'. m'[u + k + c := AIR]) [0..<n] m) = length m"
  by (induction n) simp_all

lemma clear_run_nth:
  assumes "i < length m"
  shows "fold (\<lambda>k m'. m'[u + k + c := AIR]) [0..<n] m ! i =
           (if \<exists>k<n. i = u + k + c then AIR else m ! i)"
proof (induction n)
  case 0
  then show ?case by simp
next
  case (Suc n)
  have "(\<exists>k<Suc n. i = u + k + c) \<longleftrightarrow> (\<exists>k<n. i = u + k + c) \<or> i = u + n + c"
    by (auto simp: less_Suc_eq)
  with Suc assms show ?case
    by (auto simp: nth_list_update_any clear_run_length)
qed

lemma clear_rect_length: "length (clear_rect m u v U W H) = length m"
  unfolding clear_rect_def by (induction H) (simp_all add: clear_run_length)

lemma clear_rect_nth:
  assumes "i < length m"
  shows "clear_rect m u v U W H ! i =
           (if \<exists>h<H. \<exists>k<W. i = u + k + (v + h) * U then AIR else m ! i)"
proof (induction H)
  case 0
  then show ?case by (simp add: clear_rect_def)
next
  case (Suc H)
  have len: "i < length (clear_rect m u v U W H)" using assms by (simp add: clear_rect_length)
  have step: "clear_rect m u v U W (Suc H) =
      fold (\<lambda>k m'. m'[u + k + (v + H) * U := AIR]) [0..<W] (clear_rect m u v U W H)"
    by (simp add: clear_rect_def)
  have "(\<exists>h<Suc H. \<exists>k<W. i = u + k + (v + h) * U) \<longleftrightarrow>
        (\<exists>h<H. \<exists>k<W. i = u + k + (v + h) * U) \<or> (\<exists>k<W. i = u + k + (v + H) * U)"
    by (auto simp: less_Suc_eq)
  with Suc show ?case
    by (auto simp: step clear_run_nth [OF len])
qed

lemma clear_rect_cell:
  assumes "u + W \<le> U" "u' < U" "u' + v' * U < length m"
  shows "clear_rect m u v U W H ! (u' + v' * U) =
           (if u \<le> u' \<and> u' < u + W \<and> v \<le> v' \<and> v' < v + H then AIR else m ! (u' + v' * U))"
proof -
  have "(\<exists>h<H. \<exists>k<W. u' + v' * U = u + k + (v + h) * U) \<longleftrightarrow>
        (u \<le> u' \<and> u' < u + W \<and> v \<le> v' \<and> v' < v + H)"
  proof
    assume "\<exists>h<H. \<exists>k<W. u' + v' * U = u + k + (v + h) * U"
    then obtain h k where hk: "h < H" "k < W" "u' + v' * U = (u + k) + (v + h) * U" by auto
    have "u + k < U" using hk(2) assms(1) by simp
    from mask_index_inj [OF assms(2) this hk(3)] hk(1,2)
    show "u \<le> u' \<and> u' < u + W \<and> v \<le> v' \<and> v' < v + H" by simp
  next
    assume a: "u \<le> u' \<and> u' < u + W \<and> v \<le> v' \<and> v' < v + H"
    then have "v' - v < H" "u' - u < W" "u' + v' * U = u + (u' - u) + (v + (v' - v)) * U"
      by auto
    then show "\<exists>h<H. \<exists>k<W. u' + v' * U = u + k + (v + h) * U" by blast
  qed
  with clear_rect_nth [OF assms(3), of u v U W H] show ?thesis by simp
qed

subsection \<open>The width and height loops\<close>

lemma find_width_run:
  assumes "\<forall>j. width \<le> j \<and> j < rw \<longrightarrow> m ! (u + j + v * U) = t"
    "u + rw = U \<or> m ! (u + rw + v * U) \<noteq> t" "width \<le> rw" "u + rw \<le> U"
  shows "find_width m u v U t width = rw"
  using assms
proof (induction "rw - width" arbitrary: width)
  case 0
  then have w: "width = rw" by simp
  from "0.prems"(2) show ?case
    unfolding w by (subst find_width.simps) auto
next
  case (Suc n)
  then have lt: "width < rw" by simp
  with Suc.prems have c: "u + width < U" "m ! (u + width + v * U) = t" by simp_all
  have "find_width m u v U t (width + 1) = rw"
  proof (rule Suc.hyps(1))
    show "n = rw - (width + 1)" using Suc.hyps(2) by simp
    show "\<forall>j. width + 1 \<le> j \<and> j < rw \<longrightarrow> m ! (u + j + v * U) = t" using Suc.prems(1) by simp
    show "u + rw = U \<or> m ! (u + rw + v * U) \<noteq> t" by (rule Suc.prems(2))
    show "width + 1 \<le> rw" using lt by simp
    show "u + rw \<le> U" by (rule Suc.prems(4))
  qed
  with c show ?case by (subst find_width.simps) simp
qed

lemma row_matches_iff:
  "row_matches m u row U t W \<longleftrightarrow> (\<forall>k<W. m ! (u + k + row * U) = t)"
  by (auto simp: row_matches_def list_all_iff)

lemma find_height_run:
  assumes "\<forall>j. height \<le> j \<and> j < rh \<longrightarrow> row_matches m u (v + j) U t W"
    "v + rh = V \<or> \<not> row_matches m u (v + rh) U t W" "height \<le> rh" "v + rh \<le> V"
  shows "find_height m u v U V t W height = rh"
  using assms
proof (induction "rh - height" arbitrary: height)
  case 0
  then have h: "height = rh" by simp
  from "0.prems"(2) show ?case
    unfolding h by (subst find_height.simps) auto
next
  case (Suc n)
  then have lt: "height < rh" by simp
  with Suc.prems have c: "v + height < V" "row_matches m u (v + height) U t W" by simp_all
  have "find_height m u v U V t W (height + 1) = rh"
  proof (rule Suc.hyps(1))
    show "n = rh - (height + 1)" using Suc.hyps(2) by simp
    show "\<forall>j. height + 1 \<le> j \<and> j < rh \<longrightarrow> row_matches m u (v + j) U t W"
      using Suc.prems(1) by simp
    show "v + rh = V \<or> \<not> row_matches m u (v + rh) U t W" by (rule Suc.prems(2))
    show "height + 1 \<le> rh" using lt by simp
    show "v + rh \<le> V" by (rule Suc.prems(4))
  qed
  with c show ?case by (subst find_height.simps) simp
qed

subsection \<open>Scanning rows\<close>

lemma scan_row_empty:
  assumes "\<forall>u'. u \<le> u' \<and> u' < U \<longrightarrow> m ! (u' + v * U) = AIR"
  shows "scan_row c f w U V v u (m, qs) = (m, qs)"
  using assms
proof (induction "U - u" arbitrary: u)
  case 0
  then show ?case by (subst scan_row.simps) simp
next
  case (Suc n)
  then have lt: "u < U" by simp
  with Suc.prems have a: "m ! (u + v * U) = AIR" by simp
  have "scan_row c f w U V v (u + 1) (m, qs) = (m, qs)"
  proof (rule Suc.hyps(1))
    show "n = U - (u + 1)" using Suc.hyps(2) by simp
    show "\<forall>u'. u + 1 \<le> u' \<and> u' < U \<longrightarrow> m ! (u' + v * U) = AIR" using Suc.prems by simp
  qed
  with lt a show ?case by (subst scan_row.simps) (simp add: Let_def)
qed

lemma scan_rows_empty:
  assumes "\<forall>v\<in>set vs. \<forall>u<U. m ! (u + v * U) = AIR"
  shows "fold (\<lambda>v. scan_row c f w U V v 0) vs (m, qs) = (m, qs)"
  using assms
proof (induction vs)
  case Nil
  then show ?case by simp
next
  case (Cons v vs)
  have "scan_row c f w U V v 0 (m, qs) = (m, qs)"
    by (rule scan_row_empty) (use Cons.prems in simp)
  with Cons show ?case by simp
qed

lemma single_rectangle_mask_cell:
  assumes "single_rectangle_mask m U V u0 v0 rw rh t" "u < U" "v < V"
  shows "m ! (u + v * U) = (if u0 \<le> u \<and> u < u0 + rw \<and> v0 \<le> v \<and> v < v0 + rh then t else AIR)"
  using assms by (simp add: single_rectangle_mask_def list_all_iff)

text \<open>The row that holds the upper edge of the rectangle.\<close>

lemma scan_row_rectangle:
  assumes "single_rectangle_mask m U V u0 v0 rw rh t" "u \<le> u0"
  shows "scan_row c f w U V v0 u (m, qs) =
           (clear_rect m u0 v0 U rw rh, qs @ [make_quad c f w u0 v0 rw rh t])"
  using assms(2)
proof (induction "u0 - u" arbitrary: u)
  case 0
  then have u: "u = u0" by simp
  note cell = single_rectangle_mask_cell [OF assms(1)]
  have r: "U * V \<le> length m" "0 < rw" "0 < rh" "u0 + rw \<le> U" "v0 + rh \<le> V" "t \<noteq> AIR"
    using assms(1) by (simp_all add: single_rectangle_mask_def)
  have u0: "u0 < U" and v0: "v0 < V" using r by simp_all
  have here: "m ! (u0 + v0 * U) = t" using cell [OF u0 v0] r by simp
  have wd: "find_width m u0 v0 U t 1 = rw"
  proof (rule find_width_run)
    show "\<forall>j. 1 \<le> j \<and> j < rw \<longrightarrow> m ! (u0 + j + v0 * U) = t"
    proof (intro allI impI)
      fix j assume j: "1 \<le> j \<and> j < rw"
      then have "u0 + j < U" using r by simp
      from cell [OF this v0] j r show "m ! (u0 + j + v0 * U) = t" by simp
    qed
    show "u0 + rw = U \<or> m ! (u0 + rw + v0 * U) \<noteq> t"
    proof (cases "u0 + rw = U")
      case True
      then show ?thesis by simp
    next
      case False
      with r have "u0 + rw < U" by simp
      from cell [OF this v0] r show ?thesis by simp
    qed
    show "1 \<le> rw" using r by simp
    show "u0 + rw \<le> U" using r by simp
  qed
  have ht: "find_height m u0 v0 U V t rw 1 = rh"
  proof (rule find_height_run)
    show "\<forall>j. 1 \<le> j \<and> j < rh \<longrightarrow> row_matches m u0 (v0 + j) U t rw"
    proof (intro allI impI)
      fix j assume j: "1 \<le> j \<and> j < rh"
      then have vj: "v0 + j < V" using r by simp
      have "m ! (u0 + k + (v0 + j) * U) = t" if "k < rw" for k
      proof -
        from that r have "u0 + k < U" by simp
        from cell [OF this vj] that j show ?thesis by simp
      qed
      then show "row_matches m u0 (v0 + j) U t rw" by (simp add: row_matches_iff)
    qed
    show "v0 + rh = V \<or> \<not> row_matches m u0 (v0 + rh) U t rw"
    proof (cases "v0 + rh = V")
      case True
      then show ?thesis by simp
    next
      case False
      with r have "v0 + rh < V" by simp
      from cell [OF u0 this] r have "m ! (u0 + 0 + (v0 + rh) * U) \<noteq> t" by simp
      with r(2) have "\<not> row_matches m u0 (v0 + rh) U t rw"
        unfolding row_matches_iff by blast
      then show ?thesis by simp
    qed
    show "1 \<le> rh" using r by simp
    show "v0 + rh \<le> V" using r by simp
  qed
  have cleared: "clear_rect m u0 v0 U rw rh ! (u' + v0 * U) = AIR" if "u' < U" for u'
  proof -
    have "u' + v0 * U < length m" using mask_index_less [OF that v0] r(1) by simp
    from clear_rect_cell [OF r(4) that this, of v0 rh] cell [OF that v0] show ?thesis by simp
  qed
  have rest: "scan_row c f w U V v0 (u0 + rw)
                (clear_rect m u0 v0 U rw rh, qs @ [make_quad c f w u0 v0 rw rh t]) =
              (clear_rect m u0 v0 U rw rh, qs @ [make_quad c f w u0 v0 rw rh t])"
    by (rule scan_row_empty) (simp add: cleared)
  have wd': "find_width m u0 v0 U t (Suc 0) = rw" using wd by simp
  have ht': "find_height m u0 v0 U V t rw (Suc 0) = rh" using ht by simp
  show ?case
    unfolding u by (subst scan_row.simps) (simp add: Let_def u0 here r(6) wd' ht' rest)
next
  case (Suc n)
  then have lt: "u < u0" by simp
  have r: "u0 + rw \<le> U" "v0 + rh \<le> V" "0 < rw" "0 < rh"
    using assms(1) by (simp_all add: single_rectangle_mask_def)
  have uU: "u < U" and v0: "v0 < V" using lt r by simp_all
  have a: "m ! (u + v0 * U) = AIR"
    using single_rectangle_mask_cell [OF assms(1) uU v0] lt by simp
  have "scan_row c f w U V v0 (u + 1) (m, qs) =
          (clear_rect m u0 v0 U rw rh, qs @ [make_quad c f w u0 v0 rw rh t])"
  proof (rule Suc.hyps(1))
    show "n = u0 - (u + 1)" using Suc.hyps(2) by simp
    show "u + 1 \<le> u0" using lt by simp
  qed
  with uU a show ?case by (subst scan_row.simps) (simp add: Let_def)
qed

lemma greedy_merge_rectangle:
  assumes "single_rectangle_mask m U V u0 v0 rw rh t"
  shows "greedy_merge c f w U V (m, qs) =
           (clear_rect m u0 v0 U rw rh, qs @ [make_quad c f w u0 v0 rw rh t])"
proof -
  note cell = single_rectangle_mask_cell [OF assms]
  have r: "U * V \<le> length m" "0 < rw" "0 < rh" "u0 + rw \<le> U" "v0 + rh \<le> V"
    using assms by (simp_all add: single_rectangle_mask_def)
  have v0: "v0 < V" using r by simp
  have rows: "[0..<V] = [0..<v0] @ v0 # [Suc v0..<V]"
    using v0 by (metis le_add2 le_add_same_cancel2 less_imp_add_positive upt_add_eq_append upt_conv_Cons)
  have above: "fold (\<lambda>v. scan_row c f w U V v 0) [0..<v0] (m, qs) = (m, qs)"
  proof (rule scan_rows_empty)
    show "\<forall>v\<in>set [0..<v0]. \<forall>u<U. m ! (u + v * U) = AIR"
    proof (intro ballI allI impI)
      fix v u assume "v \<in> set [0..<v0]" "u < U"
      then have "v < v0" "v < V" using v0 by simp_all
      with cell [OF \<open>u < U\<close> \<open>v < V\<close>] show "m ! (u + v * U) = AIR" by simp
    qed
  qed
  have row: "scan_row c f w U V v0 0 (m, qs) =
               (clear_rect m u0 v0 U rw rh, qs @ [make_quad c f w u0 v0 rw rh t])"
    by (rule scan_row_rectangle [OF assms]) simp
  have below: "fold (\<lambda>v. scan_row c f w U V v 0) [Suc v0..<V]
                 (clear_rect m u0 v0 U rw rh, qs @ [make_quad c f w u0 v0 rw rh t]) =
               (clear_rect m u0 v0 U rw rh, qs @ [make_quad c f w u0 v0 rw rh t])"
  proof (rule scan_rows_empty)
    show "\<forall>v\<in>set [Suc v0..<V]. \<forall>u<U. clear_rect m u0 v0 U rw rh ! (u + v * U) = AIR"
    proof (intro ballI allI impI)
      fix v u assume a: "v \<in> set [Suc v0..<V]" "u < U"
      then have v: "v < V" by simp
      have "u + v * U < length m" using mask_index_less [OF a(2) v] r(1) by simp
      from clear_rect_cell [OF r(4) a(2) this, of v0 rh] cell [OF a(2) v]
      show "clear_rect m u0 v0 U rw rh ! (u + v * U) = AIR" by simp
    qed
  qed
  show ?thesis
    unfolding greedy_merge_def rows by (simp add: above row below)
qed


subsection \<open>The claim about the greedy merge\<close>

text \<open>
  C9. For every layer mask whose non-empty cells form exactly one axis-aligned rectangle of
  a single block type, with corner \<open>(u0, v0)\<close>, width \<open>rw\<close> along \<open>u\<close> and height \<open>rh\<close>
  along \<open>v\<close>, one pass of the greedy merge emits exactly one quad. Its position is the
  corner of the rectangle in the layer \<open>w\<close> and its extents are \<open>rw\<close> and \<open>rh\<close>, on the
  axes the face sweeps: for the faces Left and Right \<open>u\<close> runs along \<open>z\<close>, \<open>v\<close> along \<open>y\<close>
  and the layer along \<open>x\<close>; for Down and Up \<open>u\<close> runs along \<open>x\<close>, \<open>v\<close> along \<open>z\<close> and the
  layer along \<open>y\<close>; for Back and Front \<open>u\<close> runs along \<open>x\<close>, \<open>v\<close> along \<open>y\<close> and the layer
  along \<open>z\<close>; the faces Right, Up and Front lie one unit further along the layer axis. The
  quad has the face and the registry colour of the block type. Afterwards every cell of the
  layer is empty; the mask keeps its length and nothing beyond the layer is touched. The
  layer sizes and the layer number are at most \<open>2^24\<close> (in the source they are at most the
  chunk height), so that their conversion to float is exact.
\<close>

theorem greedy_merge_single_rectangle:
  assumes "single_rectangle_mask msk u_size v_size u0 v0 rw rh t"
    "u_size \<le> 2 ^ 24" "v_size \<le> 2 ^ 24" "w < 2 ^ 24"
  shows "\<exists>msk' q. greedy_merge color_of face w u_size v_size (msk, quads) = (msk', quads @ [q]) \<and>
           quad_pos q =
             (case face of
                FACE_LEFT \<Rightarrow> (of_nat w, of_nat v0, of_nat u0)
              | FACE_RIGHT \<Rightarrow> (of_nat w + 1, of_nat v0, of_nat u0)
              | FACE_DOWN \<Rightarrow> (of_nat u0, of_nat w, of_nat v0)
              | FACE_UP \<Rightarrow> (of_nat u0, of_nat w + 1, of_nat v0)
              | FACE_BACK \<Rightarrow> (of_nat u0, of_nat v0, of_nat w)
              | FACE_FRONT \<Rightarrow> (of_nat u0, of_nat v0, of_nat w + 1)) \<and>
           quad_size q =
             (case face of
                FACE_LEFT \<Rightarrow> (0, of_nat rh, of_nat rw)
              | FACE_RIGHT \<Rightarrow> (0, of_nat rh, of_nat rw)
              | FACE_DOWN \<Rightarrow> (of_nat rw, 0, of_nat rh)
              | FACE_UP \<Rightarrow> (of_nat rw, 0, of_nat rh)
              | FACE_BACK \<Rightarrow> (of_nat rw, of_nat rh, 0)
              | FACE_FRONT \<Rightarrow> (of_nat rw, of_nat rh, 0)) \<and>
           quad_face q = face \<and> quad_color q = color_of t \<and>
           length msk' = length msk \<and>
           (\<forall>u v. u < u_size \<and> v < v_size \<longrightarrow> msk' ! (u + v * u_size) = AIR) \<and>
           (\<forall>i. u_size * v_size \<le> i \<and> i < length msk \<longrightarrow> msk' ! i = msk ! i)"
proof -
  define msk' where "msk' = clear_rect msk u0 v0 u_size rw rh"
  define q where "q = make_quad color_of face w u0 v0 rw rh t"
  note cell = single_rectangle_mask_cell [OF assms(1)]
  have r: "u_size * v_size \<le> length msk" "u0 + rw \<le> u_size" "v0 + rh \<le> v_size"
    using assms(1) by (simp_all add: single_rectangle_mask_def)
  have 1: "greedy_merge color_of face w u_size v_size (msk, quads) = (msk', quads @ [q])"
    unfolding msk'_def q_def by (rule greedy_merge_rectangle [OF assms(1)])
  have 2: "length msk' = length msk" by (simp add: msk'_def clear_rect_length)
  have 3: "msk' ! (u + v * u_size) = AIR" if "u < u_size \<and> v < v_size" for u v
  proof -
    from that have u: "u < u_size" and v: "v < v_size" by simp_all
    have "u + v * u_size < length msk" using mask_index_less [OF u v] r(1) by simp
    from clear_rect_cell [OF r(2) u this, of v0 rh] cell [OF u v] show ?thesis
      by (simp add: msk'_def)
  qed
  have 4: "msk' ! i = msk ! i" if "u_size * v_size \<le> i \<and> i < length msk" for i
  proof -
    have "\<not> (\<exists>h<rh. \<exists>k<rw. i = u0 + k + (v0 + h) * u_size)"
    proof
      assume "\<exists>h<rh. \<exists>k<rw. i = u0 + k + (v0 + h) * u_size"
      then obtain h k where hk: "h < rh" "k < rw" "i = (u0 + k) + (v0 + h) * u_size" by auto
      have "u0 + k < u_size" "v0 + h < v_size" using hk(1,2) r(2,3) by simp_all
      from mask_index_less [OF this] hk(3) that show False by simp
    qed
    with clear_rect_nth [of i msk u0 v0 u_size rw rh] that show ?thesis
      by (simp add: msk'_def)
  qed
  have b: "u0 \<le> 2 ^ 24" "v0 \<le> 2 ^ 24" "rw \<le> 2 ^ 24" "rh \<le> 2 ^ 24" "w \<le> 2 ^ 24"
    "w + 1 \<le> 2 ^ 24"
    using r(2,3) assms(2-4) by simp_all
  have e: "round_f32 (of_nat u0) = of_nat u0" "round_f32 (of_nat v0) = of_nat v0"
    "round_f32 (of_nat rw) = of_nat rw" "round_f32 (of_nat rh) = of_nat rh"
    "round_f32 (of_nat w) = of_nat w"
    by (rule round_f32_of_nat, rule b)+
  have "round_f32 (of_nat (w + 1)) = of_nat (w + 1)" by (rule round_f32_of_nat) (rule b(6))
  then have e1: "round_f32 (of_nat w + 1) = of_nat w + 1" by (simp add: add.commute)
  have 5: "quad_pos q =
             (case face of
                FACE_LEFT \<Rightarrow> (of_nat w, of_nat v0, of_nat u0)
              | FACE_RIGHT \<Rightarrow> (of_nat w + 1, of_nat v0, of_nat u0)
              | FACE_DOWN \<Rightarrow> (of_nat u0, of_nat w, of_nat v0)
              | FACE_UP \<Rightarrow> (of_nat u0, of_nat w + 1, of_nat v0)
              | FACE_BACK \<Rightarrow> (of_nat u0, of_nat v0, of_nat w)
              | FACE_FRONT \<Rightarrow> (of_nat u0, of_nat v0, of_nat w + 1))"
    by (cases face) (simp_all add: q_def make_quad_def w_axis_of_def e e1)
  have 6: "quad_size q =
             (case face of
                FACE_LEFT \<Rightarrow> (0, of_nat rh, of_nat rw)
              | FACE_RIGHT \<Rightarrow> (0, of_nat rh, of_nat rw)
              | FACE_DOWN \<Rightarrow> (of_nat rw, 0, of_nat rh)
              | FACE_UP \<Rightarrow> (of_nat rw, 0, of_nat rh)
              | FACE_BACK \<Rightarrow> (of_nat rw, of_nat rh, 0)
              | FACE_FRONT \<Rightarrow> (of_nat rw, of_nat rh, 0))"
    by (cases face) (simp_all add: q_def make_quad_def w_axis_of_def e)
  have 7: "quad_face q = face" "quad_color q = color_of t"
    by (simp_all add: q_def make_quad_def)
  from 1 2 3 4 5 6 7 show ?thesis by blast
qed

theorem greedy_merge_single_rectangle_witness:
  "single_rectangle_mask
     [AIR, DIRT, DIRT, DIRT, AIR, DIRT, DIRT, DIRT, AIR, AIR, AIR, AIR] 4 3 1 0 3 2 DIRT \<and>
   snd (greedy_merge (\<lambda>t. t) FACE_RIGHT 5 4 3
          ([AIR, DIRT, DIRT, DIRT, AIR, DIRT, DIRT, DIRT, AIR, AIR, AIR, AIR], [])) =
     [\<lparr> quad_pos = (6, 0, 1), quad_size = (0, 2, 3), quad_face = FACE_RIGHT,
        quad_color = DIRT \<rparr>] \<and>
   fst (greedy_merge (\<lambda>t. t) FACE_RIGHT 5 4 3
          ([AIR, DIRT, DIRT, DIRT, AIR, DIRT, DIRT, DIRT, AIR, AIR, AIR, AIR], [])) ! (1 + 0 * 4) = AIR"
proof -
  have h: "single_rectangle_mask
     [AIR, DIRT, DIRT, DIRT, AIR, DIRT, DIRT, DIRT, AIR, AIR, AIR, AIR] 4 3 1 0 3 2 DIRT"
    by (simp add: single_rectangle_mask_def block_defs upt_conv_Cons)
  from greedy_merge_single_rectangle [OF h, of 5 "\<lambda>t. t" FACE_RIGHT "[]"]
  obtain msk' q where m: "greedy_merge (\<lambda>t. t) FACE_RIGHT 5 4 3
          ([AIR, DIRT, DIRT, DIRT, AIR, DIRT, DIRT, DIRT, AIR, AIR, AIR, AIR], []) = (msk', [q])"
    "quad_pos q = (6, 0, 1)" "quad_size q = (0, 2, 3)" "quad_face q = FACE_RIGHT"
    "quad_color q = DIRT"
    "\<forall>u v. u < 4 \<and> v < 3 \<longrightarrow> msk' ! (u + v * 4) = AIR" by auto
  from m(6) have "msk' ! (1 + 0 * 4) = AIR" by (elim allE [of _ 1] allE [of _ 0]) simp
  moreover from m(2-5) have "q = \<lparr> quad_pos = (6, 0, 1), quad_size = (0, 2, 3),
                                    quad_face = FACE_RIGHT, quad_color = DIRT \<rparr>"
    by (cases q) simp
  ultimately show ?thesis using h m(1) by simp
qed

end
